theory Spec2Isabelle
  imports Main "HOL-Library.Char_ord" "HOL-Library.List_Lexorder"
begin

section \<open>Strings and regular expressions of the host language\<close>

text \<open>
  The helpers of \<^verbatim>\<open>custom_panels/helpers/utils.tsx\<close> work on strings with
  \<^verbatim>\<open>String.prototype.match\<close>, \<^verbatim>\<open>String.prototype.replace\<close> and
  \<^verbatim>\<open>RegExp.prototype.test\<close>. Strings are lists of \<^typ>\<open>char\<close> (code units up to
  255); a pattern is a syntax tree, and matching is the backtracking search of the
  language standard: the alternatives of a pattern are tried in priority order and the
  first success wins.
\<close>

definition isSpace :: "char \<Rightarrow> bool" where
  "isSpace c = (c = CHR 0x09 \<or> c = CHR 0x0A \<or> c = CHR 0x0B \<or> c = CHR 0x0C
     \<or> c = CHR 0x0D \<or> c = CHR 0x20 \<or> c = CHR 0xA0)"

definition isLineTerminator :: "char \<Rightarrow> bool" where
  "isLineTerminator c = (c = CHR 0x0A \<or> c = CHR 0x0D)"

datatype cls =
    CChar char
  | CAny
  | CSpace
  | CNot cls
  | COneOf "cls list"

fun clsMatch :: "cls \<Rightarrow> char \<Rightarrow> bool" where
  "clsMatch (CChar c) x = (x = c)"
| "clsMatch CAny x = (\<not> isLineTerminator x)"
| "clsMatch CSpace x = isSpace x"
| "clsMatch (CNot k) x = (\<not> clsMatch k x)"
| "clsMatch (COneOf ks) x = list_ex (\<lambda>k. clsMatch k x) ks"

datatype regex =
    Cls cls
  | Eps
  | Bol
  | Seq regex regex
  | Alt regex regex
  | Star bool regex
  | Group nat regex

type_synonym caps = "(nat \<times> string) list"

text \<open>
  \<open>matches n r (cs, s)\<close> lists, in priority order, every way \<open>r\<close> can match a
  prefix of the remaining input \<open>s\<close>: each result is the capture list and the input left
  over. \<open>n\<close> is the length of the whole input, so that \<open>^\<close> can tell the start.
  \<open>Star True\<close> is the greedy \<open>*\<close>, \<open>Star False\<close> the lazy \<open>*?\<close>; an iteration that
  consumes nothing is rejected, as the standard's RepeatMatcher does. \<open>Group g r\<close> is
  the capturing group number \<open>g\<close>; the newest capture of a group is the first in the
  list. The patterns of this file have no group inside a star, so the reset of captures
  at each iteration is left out.
\<close>

function matches :: "nat \<Rightarrow> regex \<Rightarrow> caps \<times> string \<Rightarrow> (caps \<times> string) list" where
  "matches n (Cls k) (cs, s) =
     (case s of [] \<Rightarrow> [] | x # xs \<Rightarrow> if clsMatch k x then [(cs, xs)] else [])"
| "matches n Eps (cs, s) = [(cs, s)]"
| "matches n Bol (cs, s) = (if length s = n then [(cs, s)] else [])"
| "matches n (Seq a b) (cs, s) = concat (map (matches n b) (matches n a (cs, s)))"
| "matches n (Alt a b) (cs, s) = matches n a (cs, s) @ matches n b (cs, s)"
| "matches n (Star greedy r) (cs, s) =
     (let more = concat (map (\<lambda>st. if length (snd st) < length s
                                      then matches n (Star greedy r) st else [])
                             (matches n r (cs, s)))
      in if greedy then more @ [(cs, s)] else (cs, s) # more)"
| "matches n (Group g r) (cs, s) =
     map (\<lambda>(cs', s'). ((g, take (length s - length s') s) # cs', s')) (matches n r (cs, s))"
  by pat_completeness auto
termination
  by (relation "inv_image (measure size <*lex*> measure length) (\<lambda>(n, r, cs, s). (r, s))") auto

declare matches.simps(6) [simp del]

fun ngroups :: "regex \<Rightarrow> nat" where
  "ngroups (Cls k) = 0"
| "ngroups Eps = 0"
| "ngroups Bol = 0"
| "ngroups (Seq a b) = ngroups a + ngroups b"
| "ngroups (Alt a b) = ngroups a + ngroups b"
| "ngroups (Star greedy r) = ngroups r"
| "ngroups (Group g r) = Suc (ngroups r)"

text \<open>
  \<open>search\<close> is the loop of \<^verbatim>\<open>RegExp.prototype.exec\<close> for a pattern without the
  global and sticky flags: it tries the start positions from left to right and stops at
  the first one where the pattern matches. The result splits the input into the text
  before the match, the matched text, the captures and the text after the match.
\<close>

fun search :: "regex \<Rightarrow> nat \<Rightarrow> string \<Rightarrow> string \<Rightarrow> (string \<times> string \<times> caps \<times> string) option" where
  "search r n pre [] =
     (case matches n r ([], []) of
        [] \<Rightarrow> None
      | (cs, rest) # _ \<Rightarrow> Some (pre, [], cs, rest))"
| "search r n pre (x # xs) =
     (case matches n r ([], x # xs) of
        [] \<Rightarrow> search r n (pre @ [x]) xs
      | (cs, rest) # _ \<Rightarrow> Some (pre, take (length (x # xs) - length rest) (x # xs), cs, rest))"

definition exec :: "regex \<Rightarrow> string \<Rightarrow> (string \<times> string \<times> caps \<times> string) option" where
  "exec r s = search r (length s) [] s"

text \<open>The value of capture group \<open>g\<close>: \<open>None\<close> is \<^verbatim>\<open>undefined\<close>.\<close>

definition captures :: "regex \<Rightarrow> caps \<Rightarrow> string option list" where
  "captures r cs = map (map_of cs) [1..<Suc (ngroups r)]"

text \<open>
  \<^verbatim>\<open>str.match(re)\<close>: \<^verbatim>\<open>null\<close> is \<open>None\<close>; otherwise element 0 of the array (the
  matched text) and the capture groups.
\<close>

definition strMatch :: "string \<Rightarrow> regex \<Rightarrow> (string \<times> string option list) option" where
  "strMatch s r =
     (case exec r s of
        None \<Rightarrow> None
      | Some (pre, m, cs, post) \<Rightarrow> Some (m, captures r cs))"

text \<open>\<^verbatim>\<open>re.test(str)\<close>.\<close>

definition test :: "regex \<Rightarrow> string \<Rightarrow> bool" where
  "test r s = (exec r s \<noteq> None)"

definition isDigit :: "char \<Rightarrow> bool" where
  "isDigit c = (48 \<le> (of_char c :: nat) \<and> (of_char c :: nat) \<le> 57)"

definition digitVal :: "char \<Rightarrow> nat" where
  "digitVal c = of_char c - 48"

text \<open>
  \<open>capRef m caps idx ref\<close> is what a \<^verbatim>\<open>$n\<close> reference stands for: the capture
  when \<open>1 \<le> idx \<le> m\<close> (the empty string for an \<^verbatim>\<open>undefined\<close> capture), and the
  reference text itself otherwise.
\<close>

definition capRef :: "string option list \<Rightarrow> nat \<Rightarrow> string \<Rightarrow> string" where
  "capRef caps idx ref =
     (if 1 \<le> idx \<and> idx \<le> length caps
      then (case caps ! (idx - 1) of None \<Rightarrow> [] | Some c \<Rightarrow> c)
      else ref)"

text \<open>
  \<open>getSubstitution\<close> expands the replacement patterns of a replacement string
  (\<^verbatim>\<open>$$\<close>, \<^verbatim>\<open>$&\<close>, \<^verbatim>\<open>$`\<close>, \<^verbatim>\<open>$'\<close>, \<^verbatim>\<open>$n\<close>, \<^verbatim>\<open>$nn\<close>), as
  \<^verbatim>\<open>String.prototype.replace\<close> does when the replacement is a string. The patterns of
  this file have no named groups, so \<^verbatim>\<open>$<\<close> stands for itself.
\<close>

fun getSubstitution :: "string \<Rightarrow> string \<Rightarrow> string \<Rightarrow> string option list \<Rightarrow> string \<Rightarrow> string" where
  "getSubstitution pre m post caps [] = []"
| "getSubstitution pre m post caps (c # t) =
     (if c \<noteq> CHR ''$'' then c # getSubstitution pre m post caps t
      else (case t of
          [] \<Rightarrow> [c]
        | d # t' \<Rightarrow>
            if d = CHR ''$'' then CHR ''$'' # getSubstitution pre m post caps t'
            else if d = CHR ''`'' then pre @ getSubstitution pre m post caps t'
            else if d = CHR ''&'' then m @ getSubstitution pre m post caps t'
            else if d = CHR 0x27 then post @ getSubstitution pre m post caps t'
            else if isDigit d then
              (case t' of
                 [] \<Rightarrow> capRef caps (digitVal d) [c, d]
               | e # t'' \<Rightarrow>
                   if isDigit e \<and> 10 * digitVal d + digitVal e \<le> length caps
                   then capRef caps (10 * digitVal d + digitVal e) [c, d, e]
                          @ getSubstitution pre m post caps t''
                   else capRef caps (digitVal d) [c, d] @ getSubstitution pre m post caps t')
            else c # getSubstitution pre m post caps t))"

text \<open>
  \<^verbatim>\<open>str.replace(re, replacement)\<close> for a pattern without the global flag and a string
  replacement: only the first match is replaced.
\<close>

definition strReplace :: "string \<Rightarrow> regex \<Rightarrow> string \<Rightarrow> string" where
  "strReplace s r replacement =
     (case exec r s of
        None \<Rightarrow> s
      | Some (pre, m, cs, post) \<Rightarrow>
          pre @ getSubstitution pre m post (captures r cs) replacement @ post)"

section \<open>External collaborators and shared constants\<close>

text \<open>
  The date library (\<^verbatim>\<open>@elastic/datemath\<close>, \<^verbatim>\<open>moment\<close>) and the number conversion of
  the host language are parameters. \<open>'m\<close> is the type of a \<^verbatim>\<open>Moment\<close>, \<open>'n\<close> the type
  of the numbers that are not \<^verbatim>\<open>NaN\<close>.
  \<^item> \<open>dateMathParse text roundUp\<close> is \<^verbatim>\<open>dateMath.parse(text, { roundUp })\<close>; \<open>None\<close>
    is \<^verbatim>\<open>undefined\<close>, the result for a text the date-math grammar rejects.
  \<^item> \<open>utcFormat t layout\<close> is \<^verbatim>\<open>t.utc().format(layout)\<close>.
  \<^item> \<open>valueOf t\<close> is \<^verbatim>\<open>t.valueOf()\<close>, \<open>None\<close> for \<^verbatim>\<open>NaN\<close>.
  \<^item> \<open>stringToNumber s\<close> is the host language's conversion of a string to a number.
\<close>

record ('m, 'n) libs =
  dateMathParse :: "string \<Rightarrow> bool \<Rightarrow> 'm option"
  utcFormat :: "'m \<Rightarrow> string \<Rightarrow> string"
  valueOf :: "'m \<Rightarrow> 'n option"
  stringToNumber :: "string \<Rightarrow> 'n option"

text \<open>
  The constants of \<^verbatim>\<open>common/constants/shared\<close> are parameters too: the layout of a
  date and the two patterns, which are regular-expression literals without the global
  and sticky flags.
\<close>

record shared =
  PPL_DATE_FORMAT :: string
  PPL_INDEX_REGEX :: regex
  PPL_WHERE_CLAUSE_REGEX :: regex

datatype jsError = Error string | TypeError

section \<open>The helpers of the panels\<close>

subsection \<open>convertDateTime\<close>

text \<open>
  \<^verbatim>\<open>convertDateTime(datetime, isStart = true, formatted = true)\<close>. With \<open>formatted\<close>
  the result is a string, and the non-null assertion on an \<^verbatim>\<open>undefined\<close> parse result
  is a \<^verbatim>\<open>TypeError\<close> at run time; without it the result is the parse result as it is.
  The two result types make two functions of the model.
\<close>

definition convertDateTime :: "('m, 'n) libs \<Rightarrow> shared \<Rightarrow> string \<Rightarrow> bool \<Rightarrow> jsError + string" where
  "convertDateTime L K datetime isStart =
     (let returnTime = (if isStart then dateMathParse L datetime False
                        else dateMathParse L datetime True)
      in case returnTime of
           None \<Rightarrow> Inl TypeError
         | Some t \<Rightarrow> Inr (utcFormat L t (PPL_DATE_FORMAT K)))"

definition convertDateTimeUnformatted :: "('m, 'n) libs \<Rightarrow> string \<Rightarrow> bool \<Rightarrow> 'm option" where
  "convertDateTimeUnformatted L datetime isStart =
     (if isStart then dateMathParse L datetime False else dateMathParse L datetime True)"

subsection \<open>mergeLayoutAndVisualizations\<close>

record 'n layout =
  lay_i :: string
  lay_x :: 'n
  lay_y :: 'n
  lay_w :: 'n
  lay_h :: 'n

record 'n visualization =
  viz_id :: string
  viz_x :: 'n
  viz_y :: 'n
  viz_w :: 'n
  viz_h :: 'n

text \<open>
  The two \<^verbatim>\<open>for\<close> loops, by index. The result is the list handed to
  \<^verbatim>\<open>setPanelVisualizations\<close>. Both records are extensible: the fields a layout item or
  a visualization has beyond the five named ones are its \<open>more\<close> part.
\<close>

function layoutLoop ::
  "('n, 'a) layout_scheme list \<Rightarrow> ('n, 'b) visualization_scheme \<Rightarrow> nat
     \<Rightarrow> ('n, 'b) visualization_scheme list \<Rightarrow> ('n, 'b) visualization_scheme list" where
  "layoutLoop layout v j acc =
     (if j < length layout
      then layoutLoop layout v (Suc j)
             (if viz_id v = lay_i (layout ! j)
              then acc @ [v\<lparr>viz_x := lay_x (layout ! j), viz_y := lay_y (layout ! j),
                             viz_w := lay_w (layout ! j), viz_h := lay_h (layout ! j)\<rparr>]
              else acc)
      else acc)"
  by pat_completeness auto
termination
  by (relation "measure (\<lambda>(layout, v, j, acc). length layout - j)") auto

declare layoutLoop.simps [simp del]

function visualizationLoop ::
  "('n, 'a) layout_scheme list \<Rightarrow> ('n, 'b) visualization_scheme list \<Rightarrow> nat
     \<Rightarrow> ('n, 'b) visualization_scheme list \<Rightarrow> ('n, 'b) visualization_scheme list" where
  "visualizationLoop layout vs i acc =
     (if i < length vs
      then visualizationLoop layout vs (Suc i) (layoutLoop layout (vs ! i) 0 acc)
      else acc)"
  by pat_completeness auto
termination
  by (relation "measure (\<lambda>(layout, vs, i, acc). length vs - i)") auto

declare visualizationLoop.simps [simp del]

definition mergeLayoutAndVisualizations ::
  "('n, 'a) layout_scheme list \<Rightarrow> ('n, 'b) visualization_scheme list
     \<Rightarrow> ('n, 'b) visualization_scheme list" where
  "mergeLayoutAndVisualizations layout newVisualizationList =
     visualizationLoop layout newVisualizationList 0 []"

subsection \<open>updateQuerySpanInterval\<close>

text \<open>
  The pattern is compiled from the text
  \<^verbatim>\<open>span\(\s*${timestampField}\s*,(.*?)\)\<close>, with the field name spliced in as it
  is: \<open>spanSource\<close> is that text. A character of the name that is no syntax character
  of the pattern language (\<^verbatim>\<open>^ $ \ . * + ? ( ) [ ] { } |\<close>) stands for itself in the
  pattern, and a \<^verbatim>\<open>.\<close> of the name is the wildcard, which matches every character
  but a line terminator: \<open>fieldAtoms\<close> reads such a name. For a name with another
  syntax character the text is read by the constructor \<^verbatim>\<open>RegExp\<close> of the language, a
  parameter: \<open>regExp text\<close> is the pattern the constructor compiles the text to, or the
  \<^verbatim>\<open>SyntaxError\<close> it throws.
\<close>

datatype regExpError = SyntaxError

definition syntaxChar :: "char \<Rightarrow> bool" where
  "syntaxChar c = (c \<in> set [CHR ''^'', CHR ''$'', CHR 0x5C, CHR ''.'', CHR ''*'', CHR ''+'',
     CHR ''?'', CHR ''('', CHR '')'', CHR ''['', CHR '']'', CHR ''{'', CHR ''}'', CHR ''|''])"

definition lit :: "char \<Rightarrow> regex" where
  "lit c = Cls (CChar c)"

fun seqs :: "regex list \<Rightarrow> regex" where
  "seqs [] = Eps"
| "seqs (r # rs) = Seq r (seqs rs)"

definition backslash :: char where
  "backslash = CHR 0x5C"

definition spanSource :: "string \<Rightarrow> string" where
  "spanSource timestampField =
     ''span'' @ [backslash] @ ''('' @ [backslash] @ ''s*'' @ timestampField
       @ [backslash] @ ''s*,(.*?)'' @ [backslash] @ '')''"

fun fieldAtoms :: "string \<Rightarrow> regex list option" where
  "fieldAtoms [] = Some []"
| "fieldAtoms (c # cs) =
     (if c = CHR ''.'' then map_option ((#) (Cls CAny)) (fieldAtoms cs)
      else if syntaxChar c then None
      else map_option ((#) (lit c)) (fieldAtoms cs))"

definition spanRegex :: "regex list \<Rightarrow> regex" where
  "spanRegex field =
     seqs (map lit ''span('' @ [Star True (Cls CSpace)] @ field
           @ [Star True (Cls CSpace), lit CHR '','', Group 1 (Star False (Cls CAny)), lit CHR '')''])"

text \<open>\<^verbatim>\<open>new RegExp(...)\<close> on the pattern text of a field name.\<close>

definition spanRegExp :: "(string \<Rightarrow> regExpError + regex) \<Rightarrow> string \<Rightarrow> regExpError + regex" where
  "spanRegExp regExp timestampField =
     (case fieldAtoms timestampField of
        Some field \<Rightarrow> Inr (spanRegex field)
      | None \<Rightarrow> regExp (spanSource timestampField))"

definition updateQuerySpanInterval ::
  "(string \<Rightarrow> regExpError + regex) \<Rightarrow> string \<Rightarrow> string \<Rightarrow> string \<Rightarrow> regExpError + string" where
  "updateQuerySpanInterval regExp query timestampField spanParam =
     (case spanRegExp regExp timestampField of
        Inl e \<Rightarrow> Inl e
      | Inr re \<Rightarrow>
          Inr (strReplace query re (''span('' @ timestampField @ '','' @ spanParam @ '')'')))"

subsection \<open>queryAccumulator\<close>

definition quote :: char where
  "quote = CHR 0x27"

definition queryAccumulator ::
  "('m, 'n) libs \<Rightarrow> shared \<Rightarrow> string \<Rightarrow> string \<Rightarrow> string \<Rightarrow> string \<Rightarrow> string \<Rightarrow> jsError + string" where
  "queryAccumulator L K originalQuery timestampField startTime endTime panelFilterQuery =
     (case strMatch originalQuery (PPL_INDEX_REGEX K) of
        None \<Rightarrow> Inl (Error ''index not found in Query'')
      | Some indexMatchArray \<Rightarrow>
          (let indexPartOfQuery = fst indexMatchArray;
               filterPartOfQuery = strReplace originalQuery (PPL_INDEX_REGEX K) []
           in case convertDateTime L K startTime True of
                Inl e \<Rightarrow> Inl e
              | Inr formattedStart \<Rightarrow>
                  (case convertDateTime L K endTime False of
                     Inl e \<Rightarrow> Inl e
                   | Inr formattedEnd \<Rightarrow>
                       (let timeQueryFilter =
                              '' | where '' @ timestampField @ '' >= '' @ [quote] @ formattedStart
                              @ [quote] @ '' and '' @ timestampField @ '' <= '' @ [quote]
                              @ formattedEnd @ [quote];
                            pplFilterQuery =
                              (if panelFilterQuery = [] then [] else '' | '' @ panelFilterQuery);
                            finalQuery = indexPartOfQuery @ timeQueryFilter @ pplFilterQuery
                                           @ filterPartOfQuery
                        in Inr finalQuery))))"

subsection \<open>getQueryResponse\<close>

record vizContainerError =
  errorMessage :: "string option"
  errorDetails :: "string option"

datatype logged = LoggedError string jsError | LoggedBody

text \<open>
  The state the setters write, the console, and the requests sent to the PPL service
  (query and format), oldest first.
\<close>

record 'd panel =
  isLoading :: bool
  isError :: vizContainerError
  visualizationData :: "'d option"
  console :: "logged list"
  requests :: "(string \<times> string) list"

text \<open>
  What \<^verbatim>\<open>pplService.fetch\<close> settles to: a result (\<open>None\<close> is \<^verbatim>\<open>undefined\<close>), a
  rejection whose body message parses to a reason and details, or a rejection whose
  body the handler cannot read, which leaves the handler by an exception.
\<close>

datatype 'd settled =
    Resolved "'d option"
  | Rejected "string option" "string option"
  | RejectedUnreadable

definition pplServiceRequestor ::
  "(string \<times> string \<Rightarrow> 'd settled) \<Rightarrow> string \<Rightarrow> string \<Rightarrow> 'd panel \<Rightarrow> 'd panel" where
  "pplServiceRequestor pplService finalQuery type st =
     (let st1 = st\<lparr>requests := requests st @ [(finalQuery, ''jdbc'')]\<rparr>;
          st2 = (case pplService (finalQuery, ''jdbc'') of
                   Resolved res \<Rightarrow>
                     (if res = None
                      then st1\<lparr>isError := \<lparr>errorMessage =
                                   Some ''Please check the validity of PPL Filter'',
                                 errorDetails = None\<rparr>\<rparr>
                      else st1)\<lparr>visualizationData := res\<rparr>
                 | Rejected reason details \<Rightarrow>
                     st1\<lparr>isError := \<lparr>errorMessage =
                              Some (case reason of
                                      None \<Rightarrow> ''Issue in fetching visualization''
                                    | Some t \<Rightarrow> if t = [] then ''Issue in fetching visualization''
                                               else t),
                            errorDetails = details\<rparr>,
                         console := console st1 @ [LoggedBody]\<rparr>
                 | RejectedUnreadable \<Rightarrow> st1)
      in st2\<lparr>isLoading := False\<rparr>)"

text \<open>
  \<^verbatim>\<open>getQueryResponse\<close>; \<open>filterQuery\<close> and \<open>timestampField\<close> are the two parameters
  with a default, \<open>None\<close> when the caller leaves them out.
\<close>

definition getQueryResponse ::
  "('m, 'n) libs \<Rightarrow> shared \<Rightarrow> (string \<times> string \<Rightarrow> 'd settled) \<Rightarrow> string \<Rightarrow> string \<Rightarrow> string
     \<Rightarrow> string \<Rightarrow> 'd panel \<Rightarrow> string option \<Rightarrow> string option \<Rightarrow> 'd panel" where
  "getQueryResponse L K pplService query type startTime endTime st filterQuery timestampField =
     (let st1 = st\<lparr>isLoading := True\<rparr>;
          st2 = st1\<lparr>isError := \<lparr>errorMessage = None, errorDetails = None\<rparr>\<rparr>
      in case queryAccumulator L K query
                (case timestampField of None \<Rightarrow> ''timestamp'' | Some t \<Rightarrow> t)
                startTime endTime
                (case filterQuery of None \<Rightarrow> [] | Some f \<Rightarrow> f) of
           Inl error \<Rightarrow>
             (let errorMessage = ''Issue in building final query'';
                  st3 = st2\<lparr>isError := \<lparr>errorMessage = Some errorMessage, errorDetails = None\<rparr>\<rparr>;
                  st4 = st3\<lparr>console := console st3 @ [LoggedError errorMessage error]\<rparr>
              in st4\<lparr>isLoading := False\<rparr>)
         | Inr finalQuery \<Rightarrow> pplServiceRequestor pplService finalQuery type st2)"

subsection \<open>isDateValid\<close>

text \<open>
  The arguments are \<^verbatim>\<open>string | Moment | undefined\<close>, compared with \<^verbatim>\<open><\<close>: two
  strings by their code units, anything else as numbers, where a comparison with
  \<^verbatim>\<open>NaN\<close> is false.
\<close>

datatype 'm timeArg = TString string | TMoment 'm | TUndefined

fun strLess :: "string \<Rightarrow> string \<Rightarrow> bool" where
  "strLess [] [] = False"
| "strLess [] (y # ys) = True"
| "strLess (x # xs) [] = False"
| "strLess (x # xs) (y # ys) =
     (if x = y then strLess xs ys else (of_char x :: nat) < of_char y)"

fun toNumber :: "('m, 'n) libs \<Rightarrow> 'm timeArg \<Rightarrow> 'n option" where
  "toNumber L (TString s) = stringToNumber L s"
| "toNumber L (TMoment t) = valueOf L t"
| "toNumber L TUndefined = None"

fun jsLess :: "('m, 'n::linorder) libs \<Rightarrow> 'm timeArg \<Rightarrow> 'm timeArg \<Rightarrow> bool" where
  "jsLess L (TString a) (TString b) = strLess a b"
| "jsLess L a b =
     (case (toNumber L a, toNumber L b) of
        (Some x, Some y) \<Rightarrow> x < y
      | _ \<Rightarrow> False)"

record toast =
  title :: string
  color :: "string option"
  toastText :: "string option"
  side :: "string option"

text \<open>The result and the calls of \<^verbatim>\<open>setToast\<close> made, in order.\<close>

definition isDateValid ::
  "('m, 'n::linorder) libs \<Rightarrow> 'm timeArg \<Rightarrow> 'm timeArg \<Rightarrow> string option \<Rightarrow> bool \<times> toast list" where
  "isDateValid L start end' side' =
     (if jsLess L end' start
      then (False, [\<lparr>title = ''Time range entered is invalid'', color = Some ''danger'',
                     toastText = None, side = side'\<rparr>])
      else (True, []))"

subsection \<open>isPPLFilterValid\<close>

definition checkIndexExists :: "shared \<Rightarrow> string \<Rightarrow> bool" where
  "checkIndexExists K query = test (PPL_INDEX_REGEX K) query"

definition checkWhereClauseExists :: "shared \<Rightarrow> string \<Rightarrow> bool" where
  "checkWhereClauseExists K query = test (PPL_WHERE_CLAUSE_REGEX K) query"

definition isPPLFilterValid :: "shared \<Rightarrow> string \<Rightarrow> bool \<times> toast list" where
  "isPPLFilterValid K query =
     (if checkIndexExists K query
      then (False, [\<lparr>title = ''Please remove index from PPL Filter'', color = Some ''danger'',
                     toastText = None, side = None\<rparr>])
      else if query \<noteq> [] \<and> \<not> checkWhereClauseExists K query
      then (False, [\<lparr>title = ''PPL filters should start with a where clause'',
                     color = Some ''danger'', toastText = None, side = None\<rparr>])
      else (True, []))"

subsection \<open>The shared constants, from their description\<close>

text \<open>
  Modelled from the spec: the constants \<^verbatim>\<open>PPL_DATE_FORMAT\<close>, \<^verbatim>\<open>PPL_INDEX_REGEX\<close> and
  \<^verbatim>\<open>PPL_WHERE_CLAUSE_REGEX\<close> of \<^verbatim>\<open>common/constants/shared\<close>. The source pattern is
  "anchored at the start of the query" and "matches a \<^verbatim>\<open>source = <identifier>\<close> form",
  the identifier running up to whitespace or a pipe; a filter has to "begin with a
  \<^verbatim>\<open>where\<close> keyword"; the layout is \<^verbatim>\<open>YYYY-MM-DD HH:mm:ss\<close>.
\<close>

definition sharedConstants :: shared where
  "sharedConstants =
     \<lparr>PPL_DATE_FORMAT = ''YYYY-MM-DD HH:mm:ss'',
      PPL_INDEX_REGEX =
        seqs ([Bol] @ map lit ''source'' @ [Star True (Cls CSpace), lit CHR ''='',
              Star True (Cls CSpace),
              Cls (CNot (COneOf [CChar CHR ''|'', CSpace])),
              Star True (Cls (CNot (COneOf [CChar CHR ''|'', CSpace])))]),
      PPL_WHERE_CLAUSE_REGEX = seqs ([Bol] @ map lit ''where'')\<rparr>"

subsection \<open>An instance of the library, for concrete runs\<close>

text \<open>
  Moments are counts of milliseconds since the epoch and the clock stands at
  1970-01-02 12:00:00 UTC. Three texts parse: \<^verbatim>\<open>now\<close>, \<^verbatim>\<open>now-1d\<close> and \<^verbatim>\<open>now/d\<close>,
  the last one to the start of the day, or to its last millisecond when rounding up.
\<close>

definition exampleLibs :: "(int, int) libs" where
  "exampleLibs =
     \<lparr>dateMathParse = (\<lambda>text roundUp.
        if text = ''now'' then Some 129600000
        else if text = ''now-1d'' then Some 43200000
        else if text = ''now/d'' then Some (if roundUp then 172799999 else 86400000)
        else None),
      utcFormat = (\<lambda>t layout.
        if t = 129600000 then ''1970-01-02 12:00:00''
        else if t = 43200000 then ''1970-01-01 12:00:00''
        else if t = 172799999 then ''1970-01-02 23:59:59''
        else if t = 86400000 then ''1970-01-02 00:00:00''
        else ''Invalid date''),
      valueOf = (\<lambda>t. Some t),
      stringToNumber = (\<lambda>s. None)\<rparr>"

definition examplePanel :: "unit panel" where
  "examplePanel =
     \<lparr>isLoading = False, isError = \<lparr>errorMessage = None, errorDetails = None\<rparr>,
      visualizationData = None, console = [], requests = []\<rparr>"

text \<open>A PPL service that answers every request with a result.\<close>

definition exampleService :: "string \<times> string \<Rightarrow> unit settled" where
  "exampleService request = Resolved (Some ())"

text \<open>
  A second instance of the library, with the moments that are no date. A moment is
  \<open>Some\<close> count of milliseconds or \<open>None\<close>, the invalid moment: it has no time value
  and is formatted as \<^verbatim>\<open>Invalid date\<close>. The empty text has no parse result
  (\<^verbatim>\<open>undefined\<close>); the text \<^verbatim>\<open>foo\<close> is no date and no date-math expression, and
  its parse result is the invalid moment.
\<close>

definition momentLibs :: "(int option, int) libs" where
  "momentLibs =
     \<lparr>dateMathParse = (\<lambda>text roundUp.
        if text = ''foo'' then Some None
        else map_option Some (dateMathParse exampleLibs text roundUp)),
      utcFormat = (\<lambda>t layout.
        case t of None \<Rightarrow> ''Invalid date'' | Some ms \<Rightarrow> utcFormat exampleLibs ms layout),
      valueOf = (\<lambda>t. t),
      stringToNumber = (\<lambda>s. None)\<rparr>"

text \<open>
  An instance of the constructor \<^verbatim>\<open>RegExp\<close>: it is asked for the pattern text of the
  field name \<^verbatim>\<open>a(\<close> only, in which the group that the name opens is never closed,
  and it rejects the text as the language does.
\<close>

definition exampleRegExp :: "string \<Rightarrow> regExpError + regex" where
  "exampleRegExp source = Inl SyntaxError"

subsection \<open>Span directives, as the text of a query shows them\<close>

text \<open>
  A span directive for a field is the text \<^verbatim>\<open>span(\<close>, whitespace, the field name,
  whitespace, a comma, an interval that holds no line terminator, and \<^verbatim>\<open>)\<close>: the
  wildcard of the pattern does not pass a line break. \<open>spanAt f s\<close> says that
  \<open>s\<close> starts with such a directive, \<open>containsSpan f q\<close> that one starts somewhere in
  \<open>q\<close>.
\<close>

definition spanDirective :: "string \<Rightarrow> string \<Rightarrow> bool" where
  "spanDirective f d =
     (\<exists>ws1 ws2 old. d = ''span('' @ ws1 @ f @ ws2 @ '','' @ old @ '')''
        \<and> list_all isSpace ws1 \<and> list_all isSpace ws2 \<and> \<not> list_ex isLineTerminator old)"

definition spanAt :: "string \<Rightarrow> string \<Rightarrow> bool" where
  "spanAt f s = (\<exists>d rest. s = d @ rest \<and> spanDirective f d)"

definition containsSpan :: "string \<Rightarrow> string \<Rightarrow> bool" where
  "containsSpan f q = (\<exists>pre s. q = pre @ s \<and> spanAt f s)"

text \<open>
  \<open>plainFieldName f\<close>: the field name has no syntax character of the pattern
  language, so that every character of it stands for itself in the pattern.
  \<open>firstSpan f q pre d post\<close>: the
  query \<open>q\<close> is \<open>pre\<close>, the directive \<open>d\<close> and \<open>post\<close>, where \<open>d\<close> is the first
  span directive of \<open>q\<close> for the field: no directive starts before it, and it ends at the
  first closing parenthesis.
\<close>

definition plainFieldName :: "string \<Rightarrow> bool" where
  "plainFieldName f = (\<not> list_ex syntaxChar f)"

definition firstSpan :: "string \<Rightarrow> string \<Rightarrow> string \<Rightarrow> string \<Rightarrow> string \<Rightarrow> bool" where
  "firstSpan f q pre d post =
     (q = pre @ d @ post \<and> spanDirective f d \<and> CHR '')'' \<notin> set (butlast d)
      \<and> (\<forall>i<length pre. \<not> spanAt f (drop i q)))"

section \<open>Properties of the helpers\<close>

subsection \<open>mergeLayoutAndVisualizations\<close>

lemma layoutLoop_eq:
  "layoutLoop layout v j acc =
     acc @ map (\<lambda>l. v\<lparr>viz_x := lay_x l, viz_y := lay_y l, viz_w := lay_w l, viz_h := lay_h l\<rparr>)
             (filter (\<lambda>l. viz_id v = lay_i l) (drop j layout))"
proof (induction layout v j acc rule: layoutLoop.induct)
  case (1 layout v j acc)
  show ?case
  proof (cases "j < length layout")
    case True
    then have d: "drop j layout = layout ! j # drop (Suc j) layout"
      by (simp add: Cons_nth_drop_Suc)
    show ?thesis
      using True "1.IH" [OF True] by (subst layoutLoop.simps) (simp add: d)
  next
    case False
    then show ?thesis by (subst layoutLoop.simps) simp
  qed
qed

lemma visualizationLoop_eq:
  "visualizationLoop layout vs i acc =
     acc @ concat (map (\<lambda>v. map (\<lambda>l. v\<lparr>viz_x := lay_x l, viz_y := lay_y l,
                                          viz_w := lay_w l, viz_h := lay_h l\<rparr>)
                              (filter (\<lambda>l. viz_id v = lay_i l) layout)) (drop i vs))"
proof (induction layout vs i acc rule: visualizationLoop.induct)
  case (1 layout vs i acc)
  show ?case
  proof (cases "i < length vs")
    case True
    then have d: "drop i vs = vs ! i # drop (Suc i) vs"
      by (simp add: Cons_nth_drop_Suc)
    show ?thesis
      using True "1.IH" [OF True] by (subst visualizationLoop.simps) (simp add: d layoutLoop_eq)
  next
    case False
    then show ?thesis by (subst visualizationLoop.simps) simp
  qed
qed

text \<open>
  C10. The list handed to \<^verbatim>\<open>setPanelVisualizations\<close> has one entry for each pair of a
  visualization and a layout item with the same id, the visualizations in their order
  and, for one visualization, the layout items in theirs. An entry is the visualization
  with \<open>x\<close>, \<open>y\<close>, \<open>w\<close>, \<open>h\<close> taken from the layout item and every other field as it
  was. A visualization without a layout item of its id gives no entry, one with several
  gives one entry for each.
\<close>

theorem mergeLayoutAndVisualizations_entries:
  "mergeLayoutAndVisualizations layout vs =
     concat (map (\<lambda>v. map (\<lambda>l. v\<lparr>viz_x := lay_x l, viz_y := lay_y l,
                                    viz_w := lay_w l, viz_h := lay_h l\<rparr>)
                        (filter (\<lambda>l. viz_id v = lay_i l) layout)) vs)"
  unfolding mergeLayoutAndVisualizations_def visualizationLoop_eq
  by simp

theorem mergeLayoutAndVisualizations_entries_witness:
  "mergeLayoutAndVisualizations
     [\<lparr>lay_i = ''b'', lay_x = 1, lay_y = 2, lay_w = 3, lay_h = (4::int)\<rparr>,
      \<lparr>lay_i = ''a'', lay_x = 5, lay_y = 6, lay_w = 7, lay_h = 8\<rparr>,
      \<lparr>lay_i = ''b'', lay_x = 9, lay_y = 10, lay_w = 11, lay_h = 12\<rparr>]
     [\<lparr>viz_id = ''a'', viz_x = 0, viz_y = 0, viz_w = 0, viz_h = 0, \<dots> = ''first''\<rparr>,
      \<lparr>viz_id = ''c'', viz_x = 0, viz_y = 0, viz_w = 0, viz_h = 0, \<dots> = ''second''\<rparr>,
      \<lparr>viz_id = ''b'', viz_x = 0, viz_y = 0, viz_w = 0, viz_h = 0, \<dots> = ''third''\<rparr>]
   = [\<lparr>viz_id = ''a'', viz_x = 5, viz_y = 6, viz_w = 7, viz_h = 8, \<dots> = ''first''\<rparr>,
      \<lparr>viz_id = ''b'', viz_x = 1, viz_y = 2, viz_w = 3, viz_h = 4, \<dots> = ''third''\<rparr>,
      \<lparr>viz_id = ''b'', viz_x = 9, viz_y = 10, viz_w = 11, viz_h = 12, \<dots> = ''third''\<rparr>]"
  by (subst mergeLayoutAndVisualizations_entries) simp

subsection \<open>Matching and searching\<close>

lemma matches_suffix:
  "(cs', s') \<in> set (matches n r (cs, s)) \<Longrightarrow> \<exists>w. s = w @ s'"
proof (induction n r "(cs, s)" arbitrary: cs s cs' s' rule: matches.induct)
  case (1 n k cs s)
  then show ?case by (auto split: list.splits if_splits)
next
  case (2 n cs s)
  then show ?case by simp
next
  case (3 n cs s)
  then show ?case by (simp split: if_splits)
next
  case (4 n a b cs s)
  from "4.prems" obtain cm sm where m: "(cm, sm) \<in> set (matches n a (cs, s))"
    and r: "(cs', s') \<in> set (matches n b (cm, sm))"
    by auto
  from "4.hyps"(1) [OF m] obtain w1 where "s = w1 @ sm" by blast
  moreover from "4.hyps"(2) [OF m r] obtain w2 where "sm = w2 @ s'" by blast
  ultimately show ?case by simp
next
  case (5 n a b cs s)
  then show ?case by auto
next
  case (6 n greedy r cs s)
  from "6.prems" consider "(cs', s') = (cs, s)"
    | cm sm where "(cm, sm) \<in> set (matches n r (cs, s))" "length sm < length s"
        "(cs', s') \<in> set (matches n (Star greedy r) (cm, sm))"
    by (auto simp: matches.simps(6) Let_def split: if_splits)
  then show ?case
  proof cases
    case 1
    then show ?thesis by simp
  next
    case 2
    from "6.hyps"(1) [OF 2(1)] obtain w1 where "s = w1 @ sm" by blast
    moreover from "6.hyps"(2) [OF 2(1)] 2(2) 2(3) obtain w2 where "sm = w2 @ s'" by auto
    ultimately show ?thesis by simp
  qed
next
  case (7 n g r cs s)
  then show ?case by auto
qed

lemma search_decomp:
  "search r n pre s = Some (p, m, cs, post) \<Longrightarrow> pre @ s = p @ m @ post"
proof (induction s arbitrary: pre)
  case Nil
  show ?case
  proof (cases "matches n r ([], [])")
    case Nil
    with Nil.prems show ?thesis by simp
  next
    case (Cons st sts)
    obtain c rest where st: "st = (c, rest)" by (cases st)
    have "(c, rest) \<in> set (matches n r ([], []))" using Cons st by simp
    from matches_suffix [OF this] have "rest = []" by simp
    with Cons st Nil.prems show ?thesis by auto
  qed
next
  case (Cons x xs)
  show ?case
  proof (cases "matches n r ([], x # xs)")
    case Nil
    with Cons.prems have "search r n (pre @ [x]) xs = Some (p, m, cs, post)" by simp
    from Cons.IH [OF this] show ?thesis by simp
  next
    case (Cons st sts)
    obtain c rest where st: "st = (c, rest)" by (cases st)
    with Cons Cons.prems have e: "p = pre" "m = take (length (x # xs) - length rest) (x # xs)"
      "post = rest"
      by auto
    have "(c, rest) \<in> set (matches n r ([], x # xs))" using Cons st by simp
    from matches_suffix [OF this] obtain w where w: "x # xs = w @ rest" by blast
    then have "take (length (x # xs) - length rest) (x # xs) = w"
      by (metis append_eq_conv_conj length_append add_diff_cancel_right')
    with e w show ?thesis by simp
  qed
qed

lemma exec_decomp:
  "exec r s = Some (p, m, cs, post) \<Longrightarrow> s = p @ m @ post"
  unfolding exec_def by (drule search_decomp) simp

subsection \<open>queryAccumulator and getQueryResponse\<close>

lemma strMatch_exec:
  "exec r s = Some (pre, m, cs, post) \<Longrightarrow> strMatch s r = Some (m, captures r cs)"
  by (simp add: strMatch_def)

lemma strReplace_empty:
  "exec r s = Some (pre, m, cs, post) \<Longrightarrow> strReplace s r [] = pre @ post"
  by (simp add: strReplace_def)

lemma test_strMatch: "test r s \<longleftrightarrow> strMatch s r \<noteq> None"
  by (auto simp: strMatch_def test_def split: option.splits)

lemma convertDateTime_cases:
  "convertDateTime L K datetime isStart =
     (case dateMathParse L datetime (\<not> isStart) of
        None \<Rightarrow> Inl TypeError
      | Some t \<Rightarrow> Inr (utcFormat L t (PPL_DATE_FORMAT K)))"
  by (simp add: convertDateTime_def)

text \<open>
  C1, as amended. When the source pattern matches the query, with the query being
  \<open>pre\<close>, the matched source clause and \<open>post\<close>, and the start time and the end time
  both have a parse result, \<^verbatim>\<open>queryAccumulator\<close> returns the source clause, then the
  time filter, then the filter clause (\<^verbatim>\<open> | \<close> and the panel filter when that is not
  empty, nothing otherwise), then the query without the source clause, that is \<open>pre\<close>
  followed by \<open>post\<close>.
\<close>

theorem queryAccumulator_assembles:
  assumes "exec (PPL_INDEX_REGEX K) originalQuery = Some (pre, sourceClause, cs, post)"
    and "dateMathParse L startTime False = Some a"
    and "dateMathParse L endTime True = Some b"
  shows "originalQuery = pre @ sourceClause @ post
    \<and> queryAccumulator L K originalQuery timestampField startTime endTime panelFilterQuery =
        Inr (sourceClause
             @ ('' | where '' @ timestampField @ '' >= '' @ [quote]
                  @ utcFormat L a (PPL_DATE_FORMAT K) @ [quote]
                  @ '' and '' @ timestampField @ '' <= '' @ [quote]
                  @ utcFormat L b (PPL_DATE_FORMAT K) @ [quote])
             @ (if panelFilterQuery = [] then [] else '' | '' @ panelFilterQuery)
             @ (pre @ post))"
  using assms exec_decomp [OF assms(1)]
  by (simp add: queryAccumulator_def strMatch_exec strReplace_empty convertDateTime_cases)

theorem queryAccumulator_assembles_witness:
  "queryAccumulator exampleLibs sharedConstants ''source = logs | stats count()'' ''timestamp''
      ''now-1d'' ''now/d'' ''where x=1'' =
    Inr (''source = logs''
       @ ('' | where timestamp >= '' @ [quote] @ ''1970-01-01 12:00:00'' @ [quote]
          @ '' and timestamp <= '' @ [quote] @ ''1970-01-02 23:59:59'' @ [quote])
       @ '' | where x=1''
       @ '' | stats count()'')"
proof -
  have e: "exec (PPL_INDEX_REGEX sharedConstants) ''source = logs | stats count()'' =
      Some ([], ''source = logs'', [], '' | stats count()'')"
    by code_simp
  have a: "dateMathParse exampleLibs ''now-1d'' False = Some 43200000"
    by (simp add: exampleLibs_def)
  have b: "dateMathParse exampleLibs ''now/d'' True = Some 172799999"
    by (simp add: exampleLibs_def)
  show ?thesis
    using queryAccumulator_assembles [OF e a b, of "''timestamp''" "''where x=1''"]
    by (simp add: exampleLibs_def sharedConstants_def)
qed


text \<open>
  C1, as stated, fails: the source pattern matches this query, and with the empty start
  time, for which the library has no parse result, \<^verbatim>\<open>queryAccumulator\<close> throws
  and returns no query.
\<close>

theorem queryAccumulator_unparsed_start_counterexample:
  "test (PPL_INDEX_REGEX sharedConstants) ''source = logs | stats count()''
   \<and> dateMathParse exampleLibs [] False = None
   \<and> queryAccumulator exampleLibs sharedConstants ''source = logs | stats count()''
        ''timestamp'' [] ''now'' ''where x=1'' = Inl TypeError"
  by code_simp

lemma queryAccumulator_Inr:
  assumes "queryAccumulator L K originalQuery timestampField startTime endTime panelFilterQuery
             = Inr finalQuery"
  shows "\<exists>pre sourceClause cs post a b.
      exec (PPL_INDEX_REGEX K) originalQuery = Some (pre, sourceClause, cs, post)
    \<and> dateMathParse L startTime False = Some a
    \<and> dateMathParse L endTime True = Some b
    \<and> finalQuery = sourceClause
         @ ('' | where '' @ timestampField @ '' >= '' @ [quote]
              @ utcFormat L a (PPL_DATE_FORMAT K) @ [quote]
              @ '' and '' @ timestampField @ '' <= '' @ [quote]
              @ utcFormat L b (PPL_DATE_FORMAT K) @ [quote])
         @ (if panelFilterQuery = [] then [] else '' | '' @ panelFilterQuery)
         @ (pre @ post)"
proof (cases "exec (PPL_INDEX_REGEX K) originalQuery")
  case None
  with assms show ?thesis by (simp add: queryAccumulator_def strMatch_def)
next
  case (Some found)
  obtain pre m cs post where f: "found = (pre, m, cs, post)" by (cases found)
  note e = Some [unfolded f]
  from assms e obtain a where a: "dateMathParse L startTime False = Some a"
    by (cases "dateMathParse L startTime False")
       (auto simp: queryAccumulator_def strMatch_exec convertDateTime_cases)
  from assms e a obtain b where b: "dateMathParse L endTime True = Some b"
    by (cases "dateMathParse L endTime True")
       (auto simp: queryAccumulator_def strMatch_exec convertDateTime_cases)
  from assms e a b show ?thesis
    by (auto simp: queryAccumulator_def strMatch_exec strReplace_empty convertDateTime_cases)
qed

text \<open>
  C3. In every call that returns, the text after the source clause is the time filter
  \<^verbatim>\<open> | where <field> >= '<start>' and <field> <= '<end>'\<close>, where \<open>start\<close> is the
  start time parsed without rounding up, \<open>end\<close> the end time parsed with rounding up,
  both formatted in UTC with \<^verbatim>\<open>PPL_DATE_FORMAT\<close>: the results of \<^verbatim>\<open>convertDateTime\<close>
  with \<open>isStart\<close> true and false.
\<close>

theorem queryAccumulator_timeFilter:
  assumes "queryAccumulator L K originalQuery timestampField startTime endTime panelFilterQuery
             = Inr finalQuery"
  shows "\<exists>formattedStart formattedEnd a b sourceClause rest.
      dateMathParse L startTime False = Some a
    \<and> dateMathParse L endTime True = Some b
    \<and> formattedStart = utcFormat L a (PPL_DATE_FORMAT K)
    \<and> formattedEnd = utcFormat L b (PPL_DATE_FORMAT K)
    \<and> convertDateTime L K startTime True = Inr formattedStart
    \<and> convertDateTime L K endTime False = Inr formattedEnd
    \<and> strMatch originalQuery (PPL_INDEX_REGEX K) \<noteq> None
    \<and> sourceClause = fst (the (strMatch originalQuery (PPL_INDEX_REGEX K)))
    \<and> finalQuery = sourceClause
         @ ('' | where '' @ timestampField @ '' >= '' @ [quote] @ formattedStart @ [quote]
              @ '' and '' @ timestampField @ '' <= '' @ [quote] @ formattedEnd @ [quote])
         @ rest"
proof -
  from queryAccumulator_Inr [OF assms] obtain pre sourceClause cs post a b where
    h: "exec (PPL_INDEX_REGEX K) originalQuery = Some (pre, sourceClause, cs, post)"
       "dateMathParse L startTime False = Some a"
       "dateMathParse L endTime True = Some b"
       "finalQuery = sourceClause
         @ ('' | where '' @ timestampField @ '' >= '' @ [quote]
              @ utcFormat L a (PPL_DATE_FORMAT K) @ [quote]
              @ '' and '' @ timestampField @ '' <= '' @ [quote]
              @ utcFormat L b (PPL_DATE_FORMAT K) @ [quote])
         @ (if panelFilterQuery = [] then [] else '' | '' @ panelFilterQuery)
         @ (pre @ post)"
    by blast
  have "convertDateTime L K startTime True = Inr (utcFormat L a (PPL_DATE_FORMAT K))"
       "convertDateTime L K endTime False = Inr (utcFormat L b (PPL_DATE_FORMAT K))"
    using h(2,3) by (simp_all add: convertDateTime_cases)
  moreover have "strMatch originalQuery (PPL_INDEX_REGEX K) = Some (sourceClause, captures (PPL_INDEX_REGEX K) cs)"
    using h(1) by (rule strMatch_exec)
  ultimately show ?thesis using h(2,3,4) by auto
qed

theorem queryAccumulator_timeFilter_witness:
  "\<exists>rest. queryAccumulator exampleLibs sharedConstants ''source = logs | stats count()''
       ''timestamp'' ''now/d'' ''now/d'' [] =
     Inr (''source = logs''
          @ ('' | where timestamp >= '' @ [quote] @ ''1970-01-02 00:00:00'' @ [quote]
             @ '' and timestamp <= '' @ [quote] @ ''1970-01-02 23:59:59'' @ [quote])
          @ rest)"
proof -
  have r: "queryAccumulator exampleLibs sharedConstants ''source = logs | stats count()''
       ''timestamp'' ''now/d'' ''now/d'' [] =
     Inr (''source = logs''
          @ ('' | where timestamp >= '' @ [quote] @ ''1970-01-02 00:00:00'' @ [quote]
             @ '' and timestamp <= '' @ [quote] @ ''1970-01-02 23:59:59'' @ [quote])
          @ '' | stats count()'')"
    by code_simp
  from queryAccumulator_timeFilter [OF r] r show ?thesis by blast
qed


lemma queryAccumulator_no_source:
  assumes "\<not> test (PPL_INDEX_REGEX K) query"
  shows "queryAccumulator L K query field startTime endTime panelFilterQuery =
           Inl (Error ''index not found in Query'')"
proof -
  have "strMatch query (PPL_INDEX_REGEX K) = None"
    using assms by (cases "strMatch query (PPL_INDEX_REGEX K)") (simp_all add: test_strMatch)
  then show ?thesis by (simp add: queryAccumulator_def)
qed

lemma getQueryResponse_failure:
  assumes "queryAccumulator L K query (case timestampField of None \<Rightarrow> ''timestamp'' | Some t \<Rightarrow> t)
             startTime endTime (case filterQuery of None \<Rightarrow> [] | Some f \<Rightarrow> f) = Inl e"
  shows "getQueryResponse L K pplService query type startTime endTime st filterQuery timestampField =
     st\<lparr>isError := \<lparr>errorMessage = Some ''Issue in building final query'', errorDetails = None\<rparr>,
        console := console st @ [LoggedError ''Issue in building final query'' e],
        isLoading := False\<rparr>"
  using assms by (simp add: getQueryResponse_def Let_def)

text \<open>
  C2. When the source pattern does not match the query, \<^verbatim>\<open>queryAccumulator\<close> throws
  the error "index not found in Query". \<^verbatim>\<open>getQueryResponse\<close> catches it: it sets the
  error message "Issue in building final query", logs it, sets loading to false and
  returns; no request goes to the PPL service.
\<close>

theorem missing_source_aborts:
  assumes "\<not> test (PPL_INDEX_REGEX K) query"
  shows "queryAccumulator L K query field startTime endTime panelFilterQuery =
           Inl (Error ''index not found in Query'')
    \<and> getQueryResponse L K pplService query type startTime endTime st filterQuery timestampField =
         st\<lparr>isError := \<lparr>errorMessage = Some ''Issue in building final query'',
                        errorDetails = None\<rparr>,
            console := console st @ [LoggedError ''Issue in building final query''
                                       (Error ''index not found in Query'')],
            isLoading := False\<rparr>
    \<and> requests (getQueryResponse L K pplService query type startTime endTime st filterQuery
                   timestampField) = requests st
    \<and> isLoading (getQueryResponse L K pplService query type startTime endTime st filterQuery
                   timestampField) = False"
proof -
  have q: "queryAccumulator L K query f startTime endTime p =
           Inl (Error ''index not found in Query'')" for f p
    using assms by (rule queryAccumulator_no_source)
  show ?thesis
    by (simp add: q getQueryResponse_failure [OF q])
qed

theorem missing_source_aborts_witness:
  "queryAccumulator exampleLibs sharedConstants ''| stats count()'' ''timestamp'' ''now-1d''
       ''now'' [] = Inl (Error ''index not found in Query'')
   \<and> getQueryResponse exampleLibs sharedConstants (\<lambda>request. Resolved (Some ()))
        ''| stats count()'' ''line'' ''now-1d'' ''now'' examplePanel None None =
       \<lparr>isLoading = False,
        isError = \<lparr>errorMessage = Some ''Issue in building final query'', errorDetails = None\<rparr>,
        visualizationData = None,
        console = [LoggedError ''Issue in building final query''
                     (Error ''index not found in Query'')],
        requests = []\<rparr>"
proof -
  have t: "\<not> test (PPL_INDEX_REGEX sharedConstants) ''| stats count()''"
    by code_simp
  show ?thesis
    using missing_source_aborts [OF t, of exampleLibs "''timestamp''" "''now-1d''" "''now''" "[]"
        "\<lambda>request. Resolved (Some ())" "''line''" examplePanel None None]
    by (simp add: examplePanel_def)
qed

text \<open>
  C9, as amended. When the start time or the end time has no parse result (the library
  returns \<^verbatim>\<open>undefined\<close>), \<^verbatim>\<open>queryAccumulator\<close> throws whatever the query is, and
  with a source clause present the error is the \<^verbatim>\<open>TypeError\<close> of the non-null
  assertion in \<^verbatim>\<open>convertDateTime\<close>. \<^verbatim>\<open>getQueryResponse\<close> catches it in the branch of
  the missing source clause: the same message, loading set to false, and no request to
  the PPL service.
\<close>

theorem unparsed_time_aborts:
  assumes "dateMathParse L startTime False = None \<or> dateMathParse L endTime True = None"
  shows "(\<exists>e. queryAccumulator L K query field startTime endTime panelFilterQuery = Inl e)
    \<and> (test (PPL_INDEX_REGEX K) query \<longrightarrow>
         queryAccumulator L K query field startTime endTime panelFilterQuery = Inl TypeError)
    \<and> (\<exists>e. getQueryResponse L K pplService query type startTime endTime st filterQuery
               timestampField =
         st\<lparr>isError := \<lparr>errorMessage = Some ''Issue in building final query'',
                        errorDetails = None\<rparr>,
            console := console st @ [LoggedError ''Issue in building final query'' e],
            isLoading := False\<rparr>)
    \<and> requests (getQueryResponse L K pplService query type startTime endTime st filterQuery
                   timestampField) = requests st"
proof -
  have q: "queryAccumulator L K query f startTime endTime p =
      (if test (PPL_INDEX_REGEX K) query then Inl TypeError
       else Inl (Error ''index not found in Query''))" for f p
  proof (cases "strMatch query (PPL_INDEX_REGEX K)")
    case None
    then show ?thesis by (simp add: queryAccumulator_def test_strMatch)
  next
    case (Some found)
    then have "test (PPL_INDEX_REGEX K) query"
      by (simp add: test_strMatch)
    with Some assms show ?thesis
      by (auto simp: queryAccumulator_def convertDateTime_cases split: option.splits)
  qed
  obtain e where e: "queryAccumulator L K query f startTime endTime p = Inl e" for f p
    using q by (cases "test (PPL_INDEX_REGEX K) query") auto
  show ?thesis
    using q e getQueryResponse_failure [OF e, of pplService type st] by auto
qed

theorem unparsed_time_aborts_witness:
  "queryAccumulator exampleLibs sharedConstants ''source = logs | stats count()'' ''timestamp''
       ''now-1d'' [] [] = Inl TypeError
   \<and> requests (getQueryResponse exampleLibs sharedConstants (\<lambda>request. Resolved (Some ()))
        ''source = logs | stats count()'' ''line'' ''now-1d'' [] examplePanel None None) = []"
proof -
  have p: "dateMathParse exampleLibs ''now-1d'' False = None
      \<or> dateMathParse exampleLibs [] True = None"
    by (simp add: exampleLibs_def)
  have t: "test (PPL_INDEX_REGEX sharedConstants) ''source = logs | stats count()''"
    by code_simp
  show ?thesis
    using unparsed_time_aborts [OF p, of sharedConstants "''source = logs | stats count()''"
        "''timestamp''" "[]" "\<lambda>request. Resolved (Some ())" "''line''" examplePanel None None] t
    by (simp add: examplePanel_def)
qed

text \<open>
  C9, as stated, fails: the start time \<^verbatim>\<open>foo\<close> is no date and no date-math
  expression, but its parse result is not \<^verbatim>\<open>undefined\<close>: it is the invalid moment,
  which has no time value and is formatted as \<^verbatim>\<open>Invalid date\<close>. Nothing is thrown:
  \<^verbatim>\<open>queryAccumulator\<close> returns a query with that text in its time filter, and
  \<^verbatim>\<open>getQueryResponse\<close> sends it to the PPL service.
\<close>

theorem unparsed_time_invalid_moment_counterexample:
  "dateMathParse momentLibs ''foo'' False = Some None
   \<and> valueOf momentLibs None = None
   \<and> queryAccumulator momentLibs sharedConstants ''source = logs | stats count()''
        ''timestamp'' ''foo'' ''now'' []
       = Inr (''source = logs | where timestamp >= '' @ [quote] @ ''Invalid date'' @ [quote]
              @ '' and timestamp <= '' @ [quote] @ ''1970-01-02 12:00:00'' @ [quote]
              @ '' | stats count()'')
   \<and> requests (getQueryResponse momentLibs sharedConstants exampleService
        ''source = logs | stats count()'' ''line'' ''foo'' ''now'' examplePanel None None)
       = [(''source = logs | where timestamp >= '' @ [quote] @ ''Invalid date'' @ [quote]
              @ '' and timestamp <= '' @ [quote] @ ''1970-01-02 12:00:00'' @ [quote]
              @ '' | stats count()'', ''jdbc'')]"
  by code_simp

subsection \<open>The validators\<close>

lemma strLess_iff: "strLess a b \<longleftrightarrow> a < b"
  by (induction a b rule: strLess.induct) (auto simp: less_char_def)

text \<open>
  C8. For a start and an end that are both resolved, two moments with a time value or
  two strings, \<^verbatim>\<open>isDateValid\<close> returns true exactly when the end is not before the
  start (the time values compared as numbers, the strings in the order of their code
  units), and when it returns false it has called \<^verbatim>\<open>setToast\<close> once, with the title
  "Time range entered is invalid", the colour "danger" and the side it was given.
\<close>

theorem isDateValid_iff:
  "(valueOf L s = Some x \<and> valueOf L e = Some y \<longrightarrow>
      isDateValid L (TMoment s) (TMoment e) side' =
        (if x \<le> y then (True, [])
         else (False, [\<lparr>title = ''Time range entered is invalid'', color = Some ''danger'',
                         toastText = None, side = side'\<rparr>])))
   \<and> isDateValid L (TString a) (TString b) side' =
        (if a \<le> b then (True, [])
         else (False, [\<lparr>title = ''Time range entered is invalid'', color = Some ''danger'',
                         toastText = None, side = side'\<rparr>]))"
  by (auto simp: isDateValid_def strLess_iff)

theorem isDateValid_iff_witness:
  "isDateValid exampleLibs (TMoment 43200000) (TMoment 172799999) None = (True, [])
   \<and> isDateValid exampleLibs (TMoment 172799999) (TMoment 43200000) (Some ''left'') =
       (False, [\<lparr>title = ''Time range entered is invalid'', color = Some ''danger'',
                  toastText = None, side = Some ''left''\<rparr>])
   \<and> isDateValid exampleLibs (TString ''1970-01-02 23:59:59'') (TString ''1970-01-01 12:00:00'')
         None =
       (False, [\<lparr>title = ''Time range entered is invalid'', color = Some ''danger'',
                  toastText = None, side = None\<rparr>])"
proof -
  have v: "valueOf exampleLibs (43200000::int) = Some 43200000 \<and>
           valueOf exampleLibs (172799999::int) = Some 172799999"
    by (simp add: exampleLibs_def)
  have w: "valueOf exampleLibs (172799999::int) = Some 172799999 \<and>
           valueOf exampleLibs (43200000::int) = Some 43200000"
    by (simp add: exampleLibs_def)
  have lt: "\<not> ''1970-01-02 23:59:59'' \<le> ''1970-01-01 12:00:00''"
    by (simp add: less_eq_char_def less_char_def)
  show ?thesis
    using isDateValid_iff [of exampleLibs 43200000 43200000 172799999 172799999 None
        "''1970-01-02 23:59:59''" "''1970-01-01 12:00:00''"]
      isDateValid_iff [of exampleLibs 172799999 172799999 43200000 43200000 "Some ''left''"
        "''1970-01-02 23:59:59''" "''1970-01-01 12:00:00''"] v w lt
    by simp
qed

text \<open>
  C7. \<^verbatim>\<open>isPPLFilterValid\<close> returns false, with a toast, when the index pattern matches
  the filter; it returns false, with another toast, when the filter is not empty and
  the where-clause pattern does not match it; it returns true, with no toast, in every
  other case. With the patterns as the spec describes them it rejects
  \<^verbatim>\<open>source=b | where x=1\<close> and accepts \<^verbatim>\<open>where x=1\<close>.
\<close>

theorem isPPLFilterValid_cases:
  "(test (PPL_INDEX_REGEX K) query \<longrightarrow>
      isPPLFilterValid K query =
        (False, [\<lparr>title = ''Please remove index from PPL Filter'', color = Some ''danger'',
                   toastText = None, side = None\<rparr>]))
   \<and> (\<not> test (PPL_INDEX_REGEX K) query \<and> query \<noteq> []
        \<and> \<not> test (PPL_WHERE_CLAUSE_REGEX K) query \<longrightarrow>
      isPPLFilterValid K query =
        (False, [\<lparr>title = ''PPL filters should start with a where clause'',
                   color = Some ''danger'', toastText = None, side = None\<rparr>]))
   \<and> (\<not> test (PPL_INDEX_REGEX K) query
        \<and> (query = [] \<or> test (PPL_WHERE_CLAUSE_REGEX K) query) \<longrightarrow>
      isPPLFilterValid K query = (True, []))
   \<and> fst (isPPLFilterValid sharedConstants ''source=b | where x=1'') = False
   \<and> fst (isPPLFilterValid sharedConstants ''where x=1'') = True"
proof -
  have 1: "fst (isPPLFilterValid sharedConstants ''source=b | where x=1'') = False"
    by code_simp
  have 2: "fst (isPPLFilterValid sharedConstants ''where x=1'') = True"
    by code_simp
  show ?thesis
    using 1 2 by (auto simp: isPPLFilterValid_def checkIndexExists_def checkWhereClauseExists_def)
qed

theorem isPPLFilterValid_cases_witness:
  "isPPLFilterValid sharedConstants ''source=b | where x=1'' =
      (False, [\<lparr>title = ''Please remove index from PPL Filter'', color = Some ''danger'',
                 toastText = None, side = None\<rparr>])
   \<and> isPPLFilterValid sharedConstants ''stats count()'' =
      (False, [\<lparr>title = ''PPL filters should start with a where clause'',
                 color = Some ''danger'', toastText = None, side = None\<rparr>])
   \<and> isPPLFilterValid sharedConstants ''where x=1'' = (True, [])
   \<and> isPPLFilterValid sharedConstants [] = (True, [])"
proof -
  have a: "test (PPL_INDEX_REGEX sharedConstants) ''source=b | where x=1''" by code_simp
  have b: "\<not> test (PPL_INDEX_REGEX sharedConstants) ''stats count()''
      \<and> ''stats count()'' \<noteq> [] \<and> \<not> test (PPL_WHERE_CLAUSE_REGEX sharedConstants) ''stats count()''"
    by code_simp
  have c: "\<not> test (PPL_INDEX_REGEX sharedConstants) ''where x=1''
      \<and> (''where x=1'' = [] \<or> test (PPL_WHERE_CLAUSE_REGEX sharedConstants) ''where x=1'')"
    by code_simp
  have d: "\<not> test (PPL_INDEX_REGEX sharedConstants) []
      \<and> ([] = [] \<or> test (PPL_WHERE_CLAUSE_REGEX sharedConstants) [])"
    by code_simp
  show ?thesis
    using isPPLFilterValid_cases [of sharedConstants "''source=b | where x=1''"]
      isPPLFilterValid_cases [of sharedConstants "''stats count()''"]
      isPPLFilterValid_cases [of sharedConstants "''where x=1''"]
      isPPLFilterValid_cases [of sharedConstants "[]"] a b c d
    by blast
qed

subsection \<open>The star of a character class\<close>

lemma map_drop_Suc:
  "map (\<lambda>j. g (drop j xs)) js = map (\<lambda>j. g (drop j (x # xs))) (map Suc js)"
  by (simp add: comp_def)

lemma matches_Star_Cls:
  "matches n (Star greedy (Cls k)) (cs, s) =
     map (\<lambda>j. (cs, drop j s))
       (if greedy then rev [0..<Suc (length (takeWhile (clsMatch k) s))]
        else [0..<Suc (length (takeWhile (clsMatch k) s))])"
proof (induction s)
  case Nil
  then show ?case by (simp add: matches.simps(6))
next
  case (Cons x xs)
  show ?case
  proof (cases "clsMatch k x")
    case False
    then show ?thesis by (simp add: matches.simps(6))
  next
    case True
    let ?m = "length (takeWhile (clsMatch k) xs)"
    let ?F = "\<lambda>j. (cs, drop j (x # xs))"
    have tw: "length (takeWhile (clsMatch k) (x # xs)) = Suc ?m"
      using True by simp
    have up: "[0..<Suc (Suc ?m)] = 0 # [Suc 0..<Suc (Suc ?m)]"
      by (simp add: upt_rec)
    have shift: "map (\<lambda>j. (cs, drop j xs)) js = map ?F (map Suc js)" for js
      by (simp add: comp_def)
    have step: "matches n (Star greedy (Cls k)) (cs, x # xs) =
        (if greedy then matches n (Star greedy (Cls k)) (cs, xs) @ [(cs, x # xs)]
         else (cs, x # xs) # matches n (Star greedy (Cls k)) (cs, xs))"
      using True by (subst matches.simps(6)) (simp add: Let_def)
    show ?thesis
    proof (cases greedy)
      case True
      have "matches n (Star greedy (Cls k)) (cs, x # xs) =
          map (\<lambda>j. (cs, drop j xs)) (rev [0..<Suc ?m]) @ [(cs, x # xs)]"
        using step Cons.IH True by simp
      also have "map (\<lambda>j. (cs, drop j xs)) (rev [0..<Suc ?m]) =
          map ?F (rev [Suc 0..<Suc (Suc ?m)])"
        by (simp only: shift rev_map [symmetric] map_Suc_upt)
      also have "map ?F (rev [Suc 0..<Suc (Suc ?m)]) @ [(cs, x # xs)] =
          map ?F (rev [0..<Suc (Suc ?m)])"
        by (simp only: up rev.simps map_append) simp
      finally show ?thesis
        using True by (simp only: tw if_True)
    next
      case False
      have "matches n (Star greedy (Cls k)) (cs, x # xs) =
          (cs, x # xs) # map (\<lambda>j. (cs, drop j xs)) [0..<Suc ?m]"
        using step Cons.IH False by simp
      also have "map (\<lambda>j. (cs, drop j xs)) [0..<Suc ?m] =
          map ?F [Suc 0..<Suc (Suc ?m)]"
        by (simp only: shift map_Suc_upt)
      also have "(cs, x # xs) # map ?F [Suc 0..<Suc (Suc ?m)] = map ?F [0..<Suc (Suc ?m)]"
        by (simp only: up list.map) simp
      finally show ?thesis
        using False by (simp only: tw if_False)
    qed
  qed
qed

subsection \<open>Literals, stars and groups in a sequence\<close>

lemma matches_lits:
  "matches n (seqs (map lit w @ rs)) (cs, s) =
     (if take (length w) s = w then matches n (seqs rs) (cs, drop (length w) s) else [])"
proof (induction w arbitrary: s)
  case Nil
  then show ?case by simp
next
  case (Cons c w)
  show ?case
  proof (cases s)
    case Nil
    then show ?thesis by (simp add: lit_def)
  next
    case (Cons x xs)
    then show ?thesis using Cons.IH [of xs] by (simp add: lit_def)
  qed
qed

lemma matches_lits_append:
  "matches n (seqs (map lit w @ rs)) (cs, w @ t) = matches n (seqs rs) (cs, t)"
  by (simp add: matches_lits)

lemma matches_lits_mem:
  "x \<in> set (matches n (seqs (map lit w @ rs)) (cs, s)) \<longleftrightarrow>
     (\<exists>t. s = w @ t \<and> x \<in> set (matches n (seqs rs) (cs, t)))"
proof
  assume a: "x \<in> set (matches n (seqs (map lit w @ rs)) (cs, s))"
  then have t: "take (length w) s = w" by (auto simp: matches_lits split: if_splits)
  then have "s = w @ drop (length w) s" by (metis append_take_drop_id)
  moreover have "x \<in> set (matches n (seqs rs) (cs, drop (length w) s))"
    using a t by (simp add: matches_lits)
  ultimately show "\<exists>t. s = w @ t \<and> x \<in> set (matches n (seqs rs) (cs, t))" by blast
next
  assume "\<exists>t. s = w @ t \<and> x \<in> set (matches n (seqs rs) (cs, t))"
  then show "x \<in> set (matches n (seqs (map lit w @ rs)) (cs, s))"
    by (auto simp: matches_lits_append)
qed

lemma takeWhile_prefix_all:
  "j \<le> length (takeWhile P s) \<Longrightarrow> list_all P (take j s)"
proof -
  assume j: "j \<le> length (takeWhile P s)"
  have "take j s = take j (takeWhile P s)"
    using j by (metis takeWhile_dropWhile_id take_append diff_is_0_eq take_0 append_Nil2)
  moreover have "list_all P (takeWhile P s)"
    by (simp add: list_all_iff) (meson set_takeWhileD)
  ultimately show ?thesis
    by (metis append_take_drop_id list_all_append)
qed

lemma length_takeWhile_append_all:
  "list_all P ws \<Longrightarrow> length ws \<le> length (takeWhile P (ws @ t))"
  by (induction ws) auto

lemma matches_Star_Cls_mem:
  "x \<in> set (matches n (Seq (Star greedy (Cls k)) r) (cs, s)) \<longleftrightarrow>
     (\<exists>ws t. s = ws @ t \<and> list_all (clsMatch k) ws \<and> x \<in> set (matches n r (cs, t)))"
proof
  assume "x \<in> set (matches n (Seq (Star greedy (Cls k)) r) (cs, s))"
  then obtain j where j: "j \<le> length (takeWhile (clsMatch k) s)"
    and x: "x \<in> set (matches n r (cs, drop j s))"
    by (auto simp: matches_Star_Cls less_Suc_eq_le simp del: upt_Suc split: if_splits)
  have "s = take j s @ drop j s" by simp
  moreover have "list_all (clsMatch k) (take j s)" using j by (rule takeWhile_prefix_all)
  ultimately show "\<exists>ws t. s = ws @ t \<and> list_all (clsMatch k) ws \<and> x \<in> set (matches n r (cs, t))"
    using x by blast
next
  assume "\<exists>ws t. s = ws @ t \<and> list_all (clsMatch k) ws \<and> x \<in> set (matches n r (cs, t))"
  then obtain ws t where s: "s = ws @ t" and a: "list_all (clsMatch k) ws"
    and x: "x \<in> set (matches n r (cs, t))" by blast
  have j: "length ws < Suc (length (takeWhile (clsMatch k) s))"
    using length_takeWhile_append_all [OF a, of t] s by simp
  have d: "drop (length ws) s = t" using s by simp
  have mem: "length ws \<in> set (if greedy then rev [0..<Suc (length (takeWhile (clsMatch k) s))]
      else [0..<Suc (length (takeWhile (clsMatch k) s))])"
    using j by (simp del: upt_Suc)
  have "(cs, drop (length ws) s) \<in> set (matches n (Star greedy (Cls k)) (cs, s))"
    unfolding matches_Star_Cls set_map using mem by (rule imageI)
  then have "(cs, t) \<in> set (matches n (Star greedy (Cls k)) (cs, s))"
    by (simp only: d)
  then show "x \<in> set (matches n (Seq (Star greedy (Cls k)) r) (cs, s))"
    using x by auto
qed

lemma matches_Group_lazy:
  "matches n (Group g (Star False (Cls k))) (cs, s) =
     map (\<lambda>j. ((g, take j s) # cs, drop j s)) [0..<Suc (length (takeWhile (clsMatch k) s))]"
proof -
  have "length s - length (drop j s) = j" if "j < Suc (length (takeWhile (clsMatch k) s))" for j
  proof -
    have "length (takeWhile (clsMatch k) s) \<le> length s" by (rule length_takeWhile_le)
    with that show ?thesis by simp
  qed
  then show ?thesis by (simp add: matches_Star_Cls)
qed

lemma matches_Group_lazy_mem:
  "x \<in> set (matches n (Seq (Group g (Star False (Cls k))) r) (cs, s)) \<longleftrightarrow>
     (\<exists>old t. s = old @ t \<and> list_all (clsMatch k) old \<and> x \<in> set (matches n r ((g, old) # cs, t)))"
proof
  assume "x \<in> set (matches n (Seq (Group g (Star False (Cls k))) r) (cs, s))"
  then obtain j where j: "j \<le> length (takeWhile (clsMatch k) s)"
    and x: "x \<in> set (matches n r ((g, take j s) # cs, drop j s))"
    by (auto simp: matches_Group_lazy less_Suc_eq_le simp del: matches.simps(7) upt_Suc)
  have "s = take j s @ drop j s" by simp
  moreover have "list_all (clsMatch k) (take j s)" using j by (rule takeWhile_prefix_all)
  ultimately show "\<exists>old t. s = old @ t \<and> list_all (clsMatch k) old
      \<and> x \<in> set (matches n r ((g, old) # cs, t))"
    using x by blast
next
  assume "\<exists>old t. s = old @ t \<and> list_all (clsMatch k) old
      \<and> x \<in> set (matches n r ((g, old) # cs, t))"
  then obtain old t where s: "s = old @ t" and a: "list_all (clsMatch k) old"
    and x: "x \<in> set (matches n r ((g, old) # cs, t))" by blast
  have j: "length old < Suc (length (takeWhile (clsMatch k) s))"
    using length_takeWhile_append_all [OF a, of t] s by simp
  have d: "drop (length old) s = t" "take (length old) s = old" using s by simp_all
  have mem: "length old \<in> set [0..<Suc (length (takeWhile (clsMatch k) s))]"
    using j by (simp del: upt_Suc)
  have "((g, take (length old) s) # cs, drop (length old) s)
      \<in> set (matches n (Group g (Star False (Cls k))) (cs, s))"
    unfolding matches_Group_lazy set_map using mem by (rule imageI)
  then have "((g, old) # cs, t) \<in> set (matches n (Group g (Star False (Cls k))) (cs, s))"
    by (simp only: d)
  then show "x \<in> set (matches n (Seq (Group g (Star False (Cls k))) r) (cs, s))"
    using x by (auto simp del: matches.simps(7))
qed

subsection \<open>What the span pattern matches\<close>

lemma spanRegex_unfold:
  "spanRegex (map lit f) =
     seqs (map lit ''span('' @
       (Star True (Cls CSpace) #
         (map lit f @ [Star True (Cls CSpace), lit CHR '','',
                       Group 1 (Star False (Cls CAny)), lit CHR '')''])))"
  by (simp add: spanRegex_def)

lemma matches_close:
  "x \<in> set (matches n (seqs [lit c]) (cs, s)) \<longleftrightarrow> (\<exists>rest. s = c # rest \<and> x = (cs, rest))"
  by (cases s) (auto simp: lit_def)

lemma notLineTerminator_all:
  "list_all (clsMatch CAny) old \<longleftrightarrow> \<not> list_ex isLineTerminator old"
  by (induction old) auto

lemma matches_spanRegex_mem:
  "x \<in> set (matches n (spanRegex (map lit f)) (cs, s)) \<longleftrightarrow>
     (\<exists>ws1 ws2 old rest.
        s = ''span('' @ ws1 @ f @ ws2 @ '','' @ old @ '')'' @ rest
      \<and> list_all isSpace ws1 \<and> list_all isSpace ws2 \<and> \<not> list_ex isLineTerminator old
      \<and> x = ((1, old) # cs, rest))"
proof -
  define r5 where "r5 = seqs [lit CHR '')'']"
  define r4 where "r4 = Seq (Group 1 (Star False (Cls CAny))) r5"
  define r3 where "r3 = seqs (map lit '','' @ [Group 1 (Star False (Cls CAny)), lit CHR '')''])"
  define r2 where "r2 = Seq (Star True (Cls CSpace)) r3"
  define r1 where "r1 = seqs (map lit f @ [Star True (Cls CSpace), lit CHR '','',
                       Group 1 (Star False (Cls CAny)), lit CHR '')''])"
  define r0 where "r0 = Seq (Star True (Cls CSpace)) r1"
  have s4: "seqs [Group 1 (Star False (Cls CAny)), lit CHR '')''] = r4"
    by (simp add: r4_def r5_def)
  have s2: "seqs [Star True (Cls CSpace), lit CHR '','',
                       Group 1 (Star False (Cls CAny)), lit CHR '')''] = r2"
    by (simp add: r2_def r3_def)
  have s0: "seqs (Star True (Cls CSpace) #
         (map lit f @ [Star True (Cls CSpace), lit CHR '','',
                       Group 1 (Star False (Cls CAny)), lit CHR '')''])) = r0"
    by (simp add: r0_def r1_def)
  have e5: "y \<in> set (matches n r5 (c, t)) \<longleftrightarrow> (\<exists>rest. t = '')'' @ rest \<and> y = (c, rest))"
    for y c t
    unfolding r5_def using matches_close [of y n "CHR '')''" c t] by simp
  have e4: "y \<in> set (matches n r4 (c, t)) \<longleftrightarrow>
      (\<exists>old w. t = old @ w \<and> list_all (clsMatch CAny) old
         \<and> y \<in> set (matches n r5 ((1, old) # c, w)))" for y c t
    unfolding r4_def by (rule matches_Group_lazy_mem)
  have e3: "y \<in> set (matches n r3 (c, t)) \<longleftrightarrow>
      (\<exists>u. t = '','' @ u \<and> y \<in> set (matches n r4 (c, u)))" for y c t
    unfolding r3_def s4 [symmetric] by (rule matches_lits_mem)
  have e2: "y \<in> set (matches n r2 (c, t)) \<longleftrightarrow>
      (\<exists>ws u. t = ws @ u \<and> list_all (clsMatch CSpace) ws \<and> y \<in> set (matches n r3 (c, u)))"
    for y c t
    unfolding r2_def by (rule matches_Star_Cls_mem)
  have e1: "y \<in> set (matches n r1 (c, t)) \<longleftrightarrow>
      (\<exists>u. t = f @ u \<and> y \<in> set (matches n r2 (c, u)))" for y c t
    unfolding r1_def s2 [symmetric] by (rule matches_lits_mem)
  have e0: "y \<in> set (matches n r0 (c, t)) \<longleftrightarrow>
      (\<exists>ws u. t = ws @ u \<and> list_all (clsMatch CSpace) ws \<and> y \<in> set (matches n r1 (c, u)))"
    for y c t
    unfolding r0_def by (rule matches_Star_Cls_mem)
  have top: "y \<in> set (matches n (spanRegex (map lit f)) (c, t)) \<longleftrightarrow>
      (\<exists>u. t = ''span('' @ u \<and> y \<in> set (matches n r0 (c, u)))" for y c t
    unfolding spanRegex_unfold s0 [symmetric] by (rule matches_lits_mem)
  have sp: "list_all (clsMatch CSpace) ws \<longleftrightarrow> list_all isSpace ws" for ws
    by (induction ws) auto
  show ?thesis
    unfolding top e0 e1 e2 e3 e4 e5 sp notLineTerminator_all
    by (auto simp del: append_assoc) blast
qed

subsection \<open>updateQuerySpanInterval on a query without a span directive\<close>

lemma spanAt_iff_matches:
  "spanAt f s \<longleftrightarrow> matches n (spanRegex (map lit f)) (cs, s) \<noteq> []"
proof -
  have "matches n (spanRegex (map lit f)) (cs, s) \<noteq> [] \<longleftrightarrow>
      (\<exists>x. x \<in> set (matches n (spanRegex (map lit f)) (cs, s)))"
    by (cases "matches n (spanRegex (map lit f)) (cs, s)") auto
  also have "\<dots> \<longleftrightarrow> (\<exists>ws1 ws2 old rest.
        s = ''span('' @ ws1 @ f @ ws2 @ '','' @ old @ '')'' @ rest
      \<and> list_all isSpace ws1 \<and> list_all isSpace ws2 \<and> \<not> list_ex isLineTerminator old)"
    unfolding matches_spanRegex_mem by blast
  also have "\<dots> \<longleftrightarrow> spanAt f s"
  proof
    assume "\<exists>ws1 ws2 old rest.
        s = ''span('' @ ws1 @ f @ ws2 @ '','' @ old @ '')'' @ rest
      \<and> list_all isSpace ws1 \<and> list_all isSpace ws2 \<and> \<not> list_ex isLineTerminator old"
    then obtain ws1 ws2 old rest where
      h: "s = ''span('' @ ws1 @ f @ ws2 @ '','' @ old @ '')'' @ rest"
        "list_all isSpace ws1" "list_all isSpace ws2" "\<not> list_ex isLineTerminator old"
      by blast
    have "spanDirective f (''span('' @ ws1 @ f @ ws2 @ '','' @ old @ '')'')"
      unfolding spanDirective_def using h(2,3,4) by blast
    moreover have "s = (''span('' @ ws1 @ f @ ws2 @ '','' @ old @ '')'') @ rest"
      using h(1) by simp
    ultimately show "spanAt f s" unfolding spanAt_def by blast
  next
    assume "spanAt f s"
    then obtain rest ws1 ws2 old where
      h: "s = (''span('' @ ws1 @ f @ ws2 @ '','' @ old @ '')'') @ rest"
        "list_all isSpace ws1" "list_all isSpace ws2" "\<not> list_ex isLineTerminator old"
      unfolding spanAt_def spanDirective_def by blast
    have "s = ''span('' @ ws1 @ f @ ws2 @ '','' @ old @ '')'' @ rest"
      using h(1) by simp
    with h(2,3,4) show "\<exists>ws1 ws2 old rest.
        s = ''span('' @ ws1 @ f @ ws2 @ '','' @ old @ '')'' @ rest
      \<and> list_all isSpace ws1 \<and> list_all isSpace ws2 \<and> \<not> list_ex isLineTerminator old"
      by blast
  qed
  finally show ?thesis by simp
qed

lemma search_None_iff:
  "search r n p0 s = None \<longleftrightarrow> (\<forall>pre t. s = pre @ t \<longrightarrow> matches n r ([], t) = [])"
proof (induction s arbitrary: p0)
  case Nil
  then show ?case by (auto split: list.splits)
next
  case (Cons x xs)
  have "search r n p0 (x # xs) = None \<longleftrightarrow>
      matches n r ([], x # xs) = [] \<and> search r n (p0 @ [x]) xs = None"
    by (auto split: list.splits)
  also have "\<dots> \<longleftrightarrow> matches n r ([], x # xs) = []
      \<and> (\<forall>pre t. xs = pre @ t \<longrightarrow> matches n r ([], t) = [])"
    by (simp only: Cons.IH)
  also have "\<dots> \<longleftrightarrow> (\<forall>pre t. x # xs = pre @ t \<longrightarrow> matches n r ([], t) = [])"
    by (auto simp: Cons_eq_append_conv)
  finally show ?case .
qed

lemma test_spanRegex:
  "test (spanRegex (map lit f)) q \<longleftrightarrow> containsSpan f q"
proof -
  have "test (spanRegex (map lit f)) q \<longleftrightarrow>
      \<not> (\<forall>pre t. q = pre @ t \<longrightarrow> matches (length q) (spanRegex (map lit f)) ([], t) = [])"
    unfolding test_def exec_def by (simp only: search_None_iff)
  also have "\<dots> \<longleftrightarrow> (\<exists>pre t. q = pre @ t \<and> spanAt f t)"
    unfolding spanAt_iff_matches [of f _ "length q" "[]"] by blast
  finally show ?thesis unfolding containsSpan_def .
qed

lemma fieldAtoms_plain:
  "\<not> list_ex syntaxChar f \<Longrightarrow> fieldAtoms f = Some (map lit f)"
  by (induction f) (auto simp: syntaxChar_def)

lemma spanRegExp_plain:
  "plainFieldName f \<Longrightarrow> spanRegExp regExp f = Inr (spanRegex (map lit f))"
  by (simp add: spanRegExp_def plainFieldName_def fieldAtoms_plain)

text \<open>
  For a plain field name and a query in which no span directive for the field starts,
  the query is returned as it is, whatever the new interval.
\<close>

lemma updateQuerySpanInterval_no_span:
  assumes "plainFieldName timestampField"
    and "\<not> containsSpan timestampField query"
  shows "updateQuerySpanInterval regExp query timestampField spanParam = Inr query"
proof -
  have "\<not> test (spanRegex (map lit timestampField)) query"
    using assms(2) unfolding test_spanRegex .
  then have "exec (spanRegex (map lit timestampField)) query = None"
    unfolding test_def by blast
  then show ?thesis
    by (simp add: updateQuerySpanInterval_def spanRegExp_plain [OF assms(1)] strReplace_def)
qed

text \<open>
  C5 fails on the code. The query \<^verbatim>\<open>source=a | stats avg(x) by span(axb,1d)\<close> holds
  no span directive for the field \<^verbatim>\<open>a.b\<close>, and yet it is rewritten: the field name
  is spliced into the pattern unescaped, so its \<^verbatim>\<open>.\<close> is the wildcard and matches the
  \<^verbatim>\<open>x\<close>. With the field name \<^verbatim>\<open>a(\<close> the pattern text is rejected by the
  constructor, and the call ends with a \<^verbatim>\<open>SyntaxError\<close> where the claim has no error.
\<close>

theorem updateQuerySpanInterval_unescaped_field:
  "\<not> containsSpan ''a.b'' ''source=a | stats avg(x) by span(axb,1d)''
   \<and> updateQuerySpanInterval regExp ''source=a | stats avg(x) by span(axb,1d)'' ''a.b'' ''1M''
       = Inr ''source=a | stats avg(x) by span(a.b,1M)''
   \<and> updateQuerySpanInterval exampleRegExp ''source=a | stats avg(x) by span(axb,1d)''
         ''a('' ''1M''
       = Inl SyntaxError"
proof -
  have "\<not> test (spanRegex (map lit ''a.b'')) ''source=a | stats avg(x) by span(axb,1d)''"
    by code_simp
  then have 1: "\<not> containsSpan ''a.b'' ''source=a | stats avg(x) by span(axb,1d)''"
    unfolding test_spanRegex .
  have a: "spanRegExp regExp ''a.b'' = Inr (spanRegex [lit CHR ''a'', Cls CAny, lit CHR ''b''])"
    by (simp add: spanRegExp_def syntaxChar_def)
  have "strReplace ''source=a | stats avg(x) by span(axb,1d)''
          (spanRegex [lit CHR ''a'', Cls CAny, lit CHR ''b'']) ''span(a.b,1M)''
        = ''source=a | stats avg(x) by span(a.b,1M)''"
    by code_simp
  then have 2: "updateQuerySpanInterval regExp ''source=a | stats avg(x) by span(axb,1d)''
        ''a.b'' ''1M'' = Inr ''source=a | stats avg(x) by span(a.b,1M)''"
    by (simp add: updateQuerySpanInterval_def a)
  have 3: "updateQuerySpanInterval exampleRegExp ''source=a | stats avg(x) by span(axb,1d)''
        ''a('' ''1M'' = Inl SyntaxError"
    by (simp add: updateQuerySpanInterval_def spanRegExp_def syntaxChar_def exampleRegExp_def)
  from 1 2 3 show ?thesis by blast
qed

subsection \<open>The first result of a lazy star\<close>

lemma concat_map_upt_first:
  assumes "a \<le> b" and "\<And>j. j < a \<Longrightarrow> F j = []"
  shows "concat (map F [0..<Suc b]) = F a @ concat (map F [Suc a..<Suc b])"
proof -
  have 1: "[0..<Suc b] = [0..<a] @ [a..<Suc b]"
    using assms(1) upt_add_eq_append [of 0 a "Suc b - a"] by simp
  have 2: "[a..<Suc b] = a # [Suc a..<Suc b]"
    using assms(1) by (intro upt_conv_Cons) simp
  have 3: "concat (map F [0..<a]) = []"
    using assms(2) by simp
  show ?thesis
    by (simp only: 1 2 map_append concat_append 3 list.map concat.simps append_Nil)
qed

lemma matches_lazy_first:
  assumes "list_all (clsMatch k) old" and "c \<notin> set old"
  shows "\<exists>ys. matches n (seqs [Group g (Star False (Cls k)), lit c]) (cs, old @ c # post) =
           ((g, old) # cs, post) # ys"
proof -
  let ?s = "old @ c # post"
  let ?m = "length (takeWhile (clsMatch k) ?s)"
  let ?H = "\<lambda>j. ((g, take j ?s) # cs, drop j ?s)"
  let ?F = "\<lambda>j. matches n (seqs [lit c]) (?H j)"
  have le: "length old \<le> ?m"
    using length_takeWhile_append_all [OF assms(1)] .
  have early: "?F j = []" if "j < length old" for j
  proof -
    have "drop j ?s = old ! j # drop (Suc j) old @ c # post"
      using that by (simp add: Cons_nth_drop_Suc)
    moreover have "old ! j \<noteq> c" using that assms(2) by (metis nth_mem)
    ultimately show ?thesis by (simp add: lit_def)
  qed
  have here: "?F (length old) = [((g, old) # cs, post)]"
    by (simp add: lit_def)
  have "matches n (seqs [Group g (Star False (Cls k)), lit c]) (cs, ?s) =
      concat (map ?F [0..<Suc ?m])"
    by (simp only: seqs.simps matches.simps(4) matches_Group_lazy map_map comp_def)
  also have "\<dots> = ?F (length old) @ concat (map ?F [Suc (length old)..<Suc ?m])"
    using le early by (rule concat_map_upt_first)
  finally show ?thesis by (simp only: here) simp
qed

subsection \<open>updateQuerySpanInterval on a query with span directives\<close>

lemma spanRegex_nested:
  "spanRegex (map lit f) =
     seqs (map lit ''span('' @ (Star True (Cls CSpace) # (map lit f @
       (Star True (Cls CSpace) # (map lit '','' @
         [Group 1 (Star False (Cls CAny)), lit CHR '')''])))))"
  by (simp add: spanRegex_def)

lemma dropWhile_stops:
  assumes "list_all P ws" and "t = [] \<or> \<not> P (hd t)"
  shows "dropWhile P (ws @ t) = t"
proof -
  have "dropWhile P t = t" using assms(2) by (cases t) auto
  then show ?thesis using assms(1) by (induction ws) auto
qed

lemma comma_after_spaces:
  assumes "list_all isSpace b" and "list_all isSpace b'"
    and "b @ CHR '','' # R = b' @ CHR '','' # R'"
  shows "R = R'"
proof -
  have c: "\<not> isSpace CHR '',''" by (simp add: isSpace_def)
  have "dropWhile isSpace (b @ CHR '','' # R) = CHR '','' # R"
    using assms(1) c by (intro dropWhile_stops) simp_all
  moreover have "dropWhile isSpace (b' @ CHR '','' # R') = CHR '','' # R'"
    using assms(2) c by (intro dropWhile_stops) simp_all
  ultimately show ?thesis using assms(3) by simp
qed

lemma comma_unique:
  assumes "list_all isSpace a" and "list_all isSpace b"
    and "list_all isSpace a'" and "list_all isSpace b'"
    and eq: "a @ f @ b @ CHR '','' # R = a' @ f @ b' @ CHR '','' # R'"
  shows "R = R'"
proof (cases "list_all isSpace f")
  case True
  have "list_all isSpace (a @ f @ b)" "list_all isSpace (a' @ f @ b')"
    using assms(1-4) True by simp_all
  moreover have "(a @ f @ b) @ CHR '','' # R = (a' @ f @ b') @ CHR '','' # R'"
    using eq by simp
  ultimately show ?thesis by (rule comma_after_spaces)
next
  case False
  define fa where "fa = takeWhile isSpace f"
  define fb where "fb = dropWhile isSpace f"
  have f: "f = fa @ fb" by (simp add: fa_def fb_def)
  have fa: "list_all isSpace fa"
    unfolding fa_def list_all_iff by (meson set_takeWhileD)
  have fb: "fb \<noteq> []" "\<not> isSpace (hd fb)"
  proof -
    show "fb \<noteq> []"
      using False unfolding fb_def list_all_iff by (simp add: dropWhile_eq_Nil_conv)
    then show "\<not> isSpace (hd fb)"
      unfolding fb_def by (rule hd_dropWhile)
  qed
  have 1: "dropWhile isSpace ((a @ fa) @ (fb @ b @ CHR '','' # R)) = fb @ b @ CHR '','' # R"
    using assms(1) fa fb by (intro dropWhile_stops) simp_all
  have 2: "dropWhile isSpace ((a' @ fa) @ (fb @ b' @ CHR '','' # R')) = fb @ b' @ CHR '','' # R'"
    using assms(3) fa fb by (intro dropWhile_stops) simp_all
  have "(a @ fa) @ (fb @ b @ CHR '','' # R) = (a' @ fa) @ (fb @ b' @ CHR '','' # R')"
    using eq unfolding f by simp
  then have "fb @ b @ CHR '','' # R = fb @ b' @ CHR '','' # R'"
    using 1 2 by simp
  then have "b @ CHR '','' # R = b' @ CHR '','' # R'" by simp
  with assms(2,4) show ?thesis by (rule comma_after_spaces)
qed

lemma concat_heads:
  assumes "\<And>z. z \<in> set zs \<Longrightarrow> F z = [] \<or> (\<exists>ys. F z = x # ys)"
  shows "concat (map F zs) = [] \<or> (\<exists>ys. concat (map F zs) = x # ys)"
  using assms
proof (induction zs)
  case Nil
  then show ?case by simp
next
  case (Cons z zs)
  from Cons.prems [of z] consider "F z = []" | ys where "F z = x # ys" by auto
  then show ?case
  proof cases
    case 1
    with Cons.IH Cons.prems show ?thesis by simp
  next
    case 2
    then show ?thesis by simp
  qed
qed

lemma matches_seqs_Star:
  "matches n (seqs (Star greedy (Cls k) # rs)) (cs, s) =
     concat (map (\<lambda>j. matches n (seqs rs) (cs, drop j s))
       (if greedy then rev [0..<Suc (length (takeWhile (clsMatch k) s))]
        else [0..<Suc (length (takeWhile (clsMatch k) s))]))"
  by (simp only: seqs.simps matches.simps(4) matches_Star_Cls map_map comp_def)

lemma matches_spanRegex_heads:
  assumes "list_all isSpace ws1" and "list_all isSpace ws2"
    and "\<not> list_ex isLineTerminator old" and "CHR '')'' \<notin> set old"
  shows "\<exists>ys. matches n (spanRegex (map lit f))
                 (cs, ''span('' @ ws1 @ f @ ws2 @ '','' @ old @ '')'' @ post) =
               ((1, old) # cs, post) # ys"
proof -
  let ?r4 = "[Group 1 (Star False (Cls CAny)), lit CHR '')'']"
  let ?r3 = "map lit '','' @ ?r4"
  let ?r2 = "Star True (Cls CSpace) # ?r3"
  let ?r1 = "map lit f @ ?r2"
  let ?r0 = "Star True (Cls CSpace) # ?r1"
  let ?x = "((1, old) # cs, post)"
  let ?R = "old @ CHR '')'' # post"
  let ?u = "ws1 @ f @ ws2 @ CHR '','' # ?R"
  let ?s = "''span('' @ ws1 @ f @ ws2 @ '','' @ old @ '')'' @ post"
  have sp: "list_all (clsMatch CSpace) ws \<longleftrightarrow> list_all isSpace ws" for ws
    by (induction ws) auto
  obtain ys4 where 4: "matches n (seqs ?r4) (cs, ?R) = ?x # ys4"
    using matches_lazy_first [of CAny old "CHR '')''" n 1 cs post] assms(3,4)
    by (auto simp: notLineTerminator_all)
  have lvl2: "matches n (seqs ?r2) (cs, v) = [] \<or> (\<exists>ys. matches n (seqs ?r2) (cs, v) = ?x # ys)"
    if v: "?u = a @ f @ v" and a: "list_all isSpace a" for a v
    unfolding matches_seqs_Star if_True
  proof (rule concat_heads)
    fix j assume "j \<in> set (rev [0..<Suc (length (takeWhile (clsMatch CSpace) v))])"
    then have j: "j \<le> length (takeWhile (clsMatch CSpace) v)" by (simp del: upt_Suc)
    have b: "list_all isSpace (take j v)"
      using takeWhile_prefix_all [OF j] by (simp only: sp)
    show "matches n (seqs ?r3) (cs, drop j v) = []
        \<or> (\<exists>ys. matches n (seqs ?r3) (cs, drop j v) = ?x # ys)"
    proof (cases "take (length '','') (drop j v) = '',''")
      case False
      then show ?thesis by (simp only: matches_lits if_False) simp
    next
      case True
      define R' where "R' = drop (length '','') (drop j v)"
      have "drop j v = '','' @ R'"
        unfolding R'_def using True by (metis append_take_drop_id)
      then have "v = take j v @ CHR '','' # R'"
        by (metis append_take_drop_id append_Cons append_Nil)
      with v have "ws1 @ f @ ws2 @ CHR '','' # ?R = a @ f @ take j v @ CHR '','' # R'"
        by simp
      with assms(1,2) a b have "?R = R'" by (rule comma_unique)
      then have "matches n (seqs ?r3) (cs, drop j v) = matches n (seqs ?r4) (cs, ?R)"
        using True unfolding R'_def by (simp only: matches_lits simp_thms if_True)
      with 4 show ?thesis by simp
    qed
  qed
  have lvl0: "matches n (seqs ?r0) (cs, ?u) = []
      \<or> (\<exists>ys. matches n (seqs ?r0) (cs, ?u) = ?x # ys)"
    unfolding matches_seqs_Star if_True
  proof (rule concat_heads)
    fix j assume "j \<in> set (rev [0..<Suc (length (takeWhile (clsMatch CSpace) ?u))])"
    then have j: "j \<le> length (takeWhile (clsMatch CSpace) ?u)" by (simp del: upt_Suc)
    have a: "list_all isSpace (take j ?u)"
      using takeWhile_prefix_all [OF j] by (simp only: sp)
    show "matches n (seqs ?r1) (cs, drop j ?u) = []
        \<or> (\<exists>ys. matches n (seqs ?r1) (cs, drop j ?u) = ?x # ys)"
    proof (cases "take (length f) (drop j ?u) = f")
      case False
      then show ?thesis by (simp only: matches_lits if_False) simp
    next
      case True
      define v where "v = drop (length f) (drop j ?u)"
      have "drop j ?u = f @ v"
        unfolding v_def using True by (metis append_take_drop_id)
      then have "?u = take j ?u @ f @ v"
        by (metis append_take_drop_id)
      from lvl2 [OF this a]
      have "matches n (seqs ?r2) (cs, v) = [] \<or> (\<exists>ys. matches n (seqs ?r2) (cs, v) = ?x # ys)" .
      moreover have "matches n (seqs ?r1) (cs, drop j ?u) = matches n (seqs ?r2) (cs, v)"
        using True unfolding v_def by (simp only: matches_lits simp_thms if_True)
      ultimately show ?thesis by simp
    qed
  qed
  have top: "matches n (spanRegex (map lit f)) (cs, ''span('' @ ?u) = matches n (seqs ?r0) (cs, ?u)"
    unfolding spanRegex_nested by (rule matches_lits_append)
  have s: "?s = ''span('' @ ?u" by simp
  have "?x \<in> set (matches n (spanRegex (map lit f)) (cs, ?s))"
    unfolding matches_spanRegex_mem using assms(1,2,3) by blast
  then have "matches n (spanRegex (map lit f)) (cs, ?s) \<noteq> []" by auto
  with lvl0 show ?thesis unfolding s top by blast
qed

lemma search_skip:
  "(\<And>i. i < length pre \<Longrightarrow> matches n r ([], drop i (pre @ s)) = []) \<Longrightarrow>
     search r n p0 (pre @ s) = search r n (p0 @ pre) s"
proof (induction pre arbitrary: p0)
  case Nil
  then show ?case by simp
next
  case (Cons x pre)
  have "matches n r ([], (x # pre) @ s) = []"
    using Cons.prems [of 0] by simp
  then have "search r n p0 ((x # pre) @ s) = search r n (p0 @ [x]) (pre @ s)"
    by simp
  also have "\<dots> = search r n ((p0 @ [x]) @ pre) s"
  proof (rule Cons.IH)
    fix i assume "i < length pre"
    then show "matches n r ([], drop i (pre @ s)) = []"
      using Cons.prems [of "Suc i"] by simp
  qed
  finally show ?case by simp
qed

lemma search_hit:
  "matches n r ([], s) = (c, rest) # ys \<Longrightarrow>
     search r n p0 s = Some (p0, take (length s - length rest) s, c, rest)"
  by (cases s) simp_all

lemma getSubstitution_plain:
  "CHR ''$'' \<notin> set t \<Longrightarrow> getSubstitution pre m post caps t = t"
  by (induction t) auto

lemma exec_firstSpan:
  assumes "plainFieldName f" and "firstSpan f q pre d post"
  shows "\<exists>old. exec (spanRegex (map lit f)) q = Some (pre, d, [(1, old)], post)"
proof -
  from assms(2) have q: "q = pre @ d @ post" and d: "spanDirective f d"
    and short: "CHR '')'' \<notin> set (butlast d)"
    and left: "\<And>i. i < length pre \<Longrightarrow> \<not> spanAt f (drop i q)"
    unfolding firstSpan_def by blast+
  from d obtain ws1 ws2 old where
    dd: "d = ''span('' @ ws1 @ f @ ws2 @ '','' @ old @ '')''"
    and ws: "list_all isSpace ws1" "list_all isSpace ws2"
    and old: "\<not> list_ex isLineTerminator old"
    unfolding spanDirective_def by blast
  have "butlast d = ''span('' @ ws1 @ f @ ws2 @ '','' @ old"
    unfolding dd by (simp add: butlast_append)
  with short have paren: "CHR '')'' \<notin> set old" by simp
  let ?r = "spanRegex (map lit f)"
  let ?n = "length q"
  obtain ys where first: "matches ?n ?r ([], d @ post) = ([(1, old)], post) # ys"
    using matches_spanRegex_heads [OF ws old paren, of ?n f "[]" post] unfolding dd by auto
  have none: "matches ?n ?r ([], drop i (pre @ d @ post)) = []" if "i < length pre" for i
    using left [OF that] unfolding q spanAt_iff_matches [of f _ ?n "[]"] by simp
  have "exec ?r q = search ?r ?n [] (pre @ d @ post)"
    unfolding exec_def q ..
  also have "\<dots> = search ?r ?n ([] @ pre) (d @ post)"
    using none by (rule search_skip)
  also have "\<dots> = Some ([] @ pre, take (length (d @ post) - length post) (d @ post), [(1, old)], post)"
    using first by (rule search_hit)
  finally have "exec ?r q = Some (pre, d, [(1, old)], post)" by simp
  then show ?thesis by blast
qed

lemma updateQuerySpanInterval_firstSpan:
  assumes "plainFieldName f" and "firstSpan f q pre d post"
  shows "\<exists>new. updateQuerySpanInterval regExp q f p = Inr (pre @ new @ post)
           \<and> (CHR ''$'' \<notin> set p \<longrightarrow> new = ''span('' @ f @ '','' @ p @ '')'')"
proof -
  from assms(1) have f: "\<not> list_ex syntaxChar f"
    by (simp add: plainFieldName_def)
  note fp = spanRegExp_plain [OF assms(1), of regExp]
  from exec_firstSpan [OF assms] obtain old where
    ex: "exec (spanRegex (map lit f)) q = Some (pre, d, [(1, old)], post)" by blast
  let ?new = "getSubstitution pre d post (captures (spanRegex (map lit f)) [(1, old)])
                (''span('' @ f @ '','' @ p @ '')'')"
  have "updateQuerySpanInterval regExp q f p = Inr (pre @ ?new @ post)"
    by (simp only: updateQuerySpanInterval_def fp sum.case option.case strReplace_def ex prod.case)
  moreover have "?new = ''span('' @ f @ '','' @ p @ '')''" if "CHR ''$'' \<notin> set p"
  proof -
    have "CHR ''$'' \<notin> set (''span('' @ f @ '','' @ p @ '')'')"
      using that f by (auto simp: list_ex_iff syntaxChar_def)
    then show ?thesis by (rule getSubstitution_plain)
  qed
  ultimately show ?thesis by blast
qed

lemma firstSpan_exists:
  assumes "plainFieldName f" and "containsSpan f q"
  shows "\<exists>pre d post. firstSpan f q pre d post"
proof -
  from assms(2) obtain pre0 s0 where "q = pre0 @ s0" "spanAt f s0"
    unfolding containsSpan_def by blast
  then have ex: "spanAt f (drop (length pre0) q)" by simp
  define i where "i = (LEAST i. spanAt f (drop i q))"
  have at: "spanAt f (drop i q)"
    unfolding i_def using ex by (rule LeastI)
  have least: "\<not> spanAt f (drop j q)" if "j < i" for j
    using that unfolding i_def by (rule not_less_Least)
  have il: "i \<le> length q"
  proof (rule ccontr)
    assume "\<not> i \<le> length q"
    then have "drop i q = []" by simp
    with at show False unfolding spanAt_def spanDirective_def by simp
  qed
  from at obtain ws1 ws2 old rest where
    dq: "drop i q = (''span('' @ ws1 @ f @ ws2 @ '','' @ old @ '')'') @ rest"
    and ws: "list_all isSpace ws1" "list_all isSpace ws2"
    and old: "\<not> list_ex isLineTerminator old"
    unfolding spanAt_def spanDirective_def by blast
  define old1 where "old1 = takeWhile (\<lambda>c. c \<noteq> CHR '')'') old"
  define rest1 where "rest1 = tl (dropWhile (\<lambda>c. c \<noteq> CHR '')'') (old @ '')'')) @ rest"
  have cut: "old @ '')'' @ rest = old1 @ '')'' @ rest1"
  proof -
    have "dropWhile (\<lambda>c. c \<noteq> CHR '')'') (old @ '')'') \<noteq> []"
      by (simp add: dropWhile_eq_Nil_conv)
    moreover have "hd (dropWhile (\<lambda>c. c \<noteq> CHR '')'') (old @ '')'')) = CHR '')''"
      using hd_dropWhile [OF calculation] by simp
    ultimately have "dropWhile (\<lambda>c. c \<noteq> CHR '')'') (old @ '')'')
        = CHR '')'' # tl (dropWhile (\<lambda>c. c \<noteq> CHR '')'') (old @ '')''))"
      by (metis list.collapse)
    moreover have "takeWhile (\<lambda>c. c \<noteq> CHR '')'') (old @ '')'') = old1"
      unfolding old1_def by (induction old) auto
    ultimately have "old @ '')'' = old1 @ CHR '')'' # tl (dropWhile (\<lambda>c. c \<noteq> CHR '')'') (old @ '')''))"
      by (metis takeWhile_dropWhile_id)
    then have "(old @ '')'') @ rest = (old1 @ CHR '')'' # tl (dropWhile (\<lambda>c. c \<noteq> CHR '')'') (old @ '')''))) @ rest"
      by (rule arg_cong)
    then show ?thesis unfolding rest1_def by simp
  qed
  have o1: "CHR '')'' \<notin> set old1" "\<not> list_ex isLineTerminator old1"
  proof -
    show "CHR '')'' \<notin> set old1"
      unfolding old1_def by (metis (mono_tags, lifting) set_takeWhileD)
    have "set old1 \<subseteq> set old"
      unfolding old1_def by (meson set_takeWhileD subsetI)
    with old show "\<not> list_ex isLineTerminator old1"
      by (auto simp: list_ex_iff)
  qed
  let ?d = "''span('' @ ws1 @ f @ ws2 @ '','' @ old1 @ '')''"
  have "drop i q = ?d @ rest1"
    using dq cut by simp
  then have q: "q = take i q @ ?d @ rest1"
    by (metis append_take_drop_id)
  have d: "spanDirective f ?d"
    unfolding spanDirective_def using ws o1(2) by blast
  have "butlast ?d = ''span('' @ ws1 @ f @ ws2 @ '','' @ old1"
    by (simp add: butlast_append)
  moreover have "CHR '')'' \<notin> set f"
    using assms(1) by (auto simp: plainFieldName_def list_ex_iff syntaxChar_def)
  moreover have "\<not> isSpace CHR '')''"
    by (simp add: isSpace_def)
  then have "CHR '')'' \<notin> set ws1" "CHR '')'' \<notin> set ws2"
    using ws unfolding list_all_iff by blast+
  ultimately have short: "CHR '')'' \<notin> set (butlast ?d)"
    using o1(1) \<open>CHR '')'' \<notin> set ws1\<close> \<open>CHR '')'' \<notin> set ws2\<close> by simp
  have "firstSpan f q (take i q) ?d rest1"
    unfolding firstSpan_def
  proof (intro conjI allI impI)
    show "q = take i q @ ?d @ rest1" by (rule q)
    show "spanDirective f ?d" by (rule d)
    show "CHR '')'' \<notin> set (butlast ?d)" by (rule short)
    fix j assume "j < length (take i q)"
    then have "j < i" by simp
    then show "\<not> spanAt f (drop j q)" by (rule least)
  qed
  then show ?thesis by blast
qed

text \<open>
  C4, as amended. For a plain field name, a new interval without \<^verbatim>\<open>$\<close> and a query that
  contains a span directive for the field, its interval without a line terminator, the
  query has a first span directive \<open>d\<close>, between \<open>pre\<close> and \<open>post\<close>, and
  \<^verbatim>\<open>updateQuerySpanInterval\<close> returns \<open>pre\<close>, then
  \<^verbatim>\<open>span(<field>,<new interval>)\<close>, then \<open>post\<close>: the whole directive is written anew,
  without the whitespace it had inside its parentheses, and every character before and
  after it stays. In particular the query
  \<^verbatim>\<open>source=a | stats avg(x) by span(timestamp,1d)\<close> becomes
  \<^verbatim>\<open>source=a | stats avg(x) by span(timestamp,1M)\<close>.
\<close>

theorem updateQuerySpanInterval_rewrites_directive:
  assumes "plainFieldName timestampField" and "CHR ''$'' \<notin> set spanParam"
    and "containsSpan timestampField query"
  shows "(\<exists>pre d post. firstSpan timestampField query pre d post
            \<and> updateQuerySpanInterval regExp query timestampField spanParam =
                Inr (pre @ ''span('' @ timestampField @ '','' @ spanParam @ '')'' @ post))
    \<and> updateQuerySpanInterval regExp ''source=a | stats avg(x) by span(timestamp,1d)''
          ''timestamp'' ''1M''
         = Inr ''source=a | stats avg(x) by span(timestamp,1M)''"
proof -
  from firstSpan_exists [OF assms(1,3)] obtain pre d post where
    fs: "firstSpan timestampField query pre d post" by blast
  from updateQuerySpanInterval_firstSpan [OF assms(1) fs, of regExp spanParam] assms(2)
  have "updateQuerySpanInterval regExp query timestampField spanParam =
      Inr (pre @ ''span('' @ timestampField @ '','' @ spanParam @ '')'' @ post)"
    by auto
  moreover have "strReplace ''source=a | stats avg(x) by span(timestamp,1d)''
        (spanRegex (map lit ''timestamp'')) ''span(timestamp,1M)''
      = ''source=a | stats avg(x) by span(timestamp,1M)''"
    by code_simp
  then have "updateQuerySpanInterval regExp ''source=a | stats avg(x) by span(timestamp,1d)''
          ''timestamp'' ''1M''
         = Inr ''source=a | stats avg(x) by span(timestamp,1M)''"
    by (simp add: updateQuerySpanInterval_def spanRegExp_def syntaxChar_def lit_def)
  ultimately show ?thesis using fs by blast
qed

theorem updateQuerySpanInterval_rewrites_directive_witness:
  "(\<exists>pre d post.
      firstSpan ''timestamp'' ''source=a | stats avg(x) by span( timestamp , 1d) | head 5'' pre d post
      \<and> updateQuerySpanInterval exampleRegExp
          ''source=a | stats avg(x) by span( timestamp , 1d) | head 5''
          ''timestamp'' ''1M'' = Inr (pre @ ''span(timestamp,1M)'' @ post))
   \<and> updateQuerySpanInterval exampleRegExp
        ''source=a | stats avg(x) by span( timestamp , 1d) | head 5''
        ''timestamp'' ''1M'' = Inr ''source=a | stats avg(x) by span(timestamp,1M) | head 5''"
proof -
  have 1: "plainFieldName ''timestamp''"
    by (simp add: plainFieldName_def syntaxChar_def)
  have 2: "CHR ''$'' \<notin> set ''1M''" by simp
  have "test (spanRegex (map lit ''timestamp''))
      ''source=a | stats avg(x) by span( timestamp , 1d) | head 5''"
    by code_simp
  then have 3: "containsSpan ''timestamp''
      ''source=a | stats avg(x) by span( timestamp , 1d) | head 5''"
    unfolding test_spanRegex .
  have 4: "updateQuerySpanInterval exampleRegExp
        ''source=a | stats avg(x) by span( timestamp , 1d) | head 5''
        ''timestamp'' ''1M'' = Inr ''source=a | stats avg(x) by span(timestamp,1M) | head 5''"
    by code_simp
  show ?thesis
    using updateQuerySpanInterval_rewrites_directive [OF 1 2 3, of exampleRegExp] 4 by simp
qed

text \<open>
  C4, as stated, fails: only the old interval would be replaced and every other
  character kept, so \<^verbatim>\<open>span(timestamp ,1d)\<close> would become \<^verbatim>\<open>span(timestamp ,1M)\<close>.
  The result is \<^verbatim>\<open>span(timestamp,1M)\<close>: the blank before the comma is gone.
\<close>

theorem updateQuerySpanInterval_whitespace_counterexample:
  "updateQuerySpanInterval exampleRegExp ''source=a | stats avg(x) by span(timestamp ,1d)''
       ''timestamp'' ''1M''
     = Inr ''source=a | stats avg(x) by span(timestamp,1M)''
   \<and> updateQuerySpanInterval exampleRegExp ''source=a | stats avg(x) by span(timestamp ,1d)''
       ''timestamp'' ''1M''
     \<noteq> Inr ''source=a | stats avg(x) by span(timestamp ,1M)''"
  by code_simp

text \<open>
  C6, as amended. For a plain field name and a query whose first span directive \<open>d1\<close>
  is followed, after some text \<open>mid\<close>, by another span directive \<open>d2\<close> for the field,
  both with an interval without a line terminator, \<^verbatim>\<open>updateQuerySpanInterval\<close>
  rewrites \<open>d1\<close> only: the text before \<open>d1\<close> and the text after it, with \<open>d2\<close> and
  whatever follows, are returned as they were. For a new interval without \<^verbatim>\<open>$\<close> the
  text put in the place of \<open>d1\<close> is \<^verbatim>\<open>span(<field>,<new interval>)\<close>.
\<close>

theorem updateQuerySpanInterval_only_first:
  assumes "plainFieldName timestampField"
    and "firstSpan timestampField query pre d1 (mid @ d2 @ post)"
    and "spanDirective timestampField d2"
  shows "\<exists>new. updateQuerySpanInterval regExp query timestampField spanParam =
                  Inr (pre @ new @ mid @ d2 @ post)
           \<and> (CHR ''$'' \<notin> set spanParam \<longrightarrow>
                new = ''span('' @ timestampField @ '','' @ spanParam @ '')'')"
  using updateQuerySpanInterval_firstSpan [OF assms(1,2)] .

theorem updateQuerySpanInterval_only_first_witness:
  "updateQuerySpanInterval exampleRegExp
      ''source=a | stats avg(x) by span(timestamp,1d) | eval y = span(timestamp,1h)''
      ''timestamp'' ''1M''
    = Inr ''source=a | stats avg(x) by span(timestamp,1M) | eval y = span(timestamp,1h)''"
proof -
  let ?q = "''source=a | stats avg(x) by '' @ ''span(timestamp,1d)''
              @ '' | eval y = '' @ ''span(timestamp,1h)'' @ []"
  have 1: "plainFieldName ''timestamp''"
    by (simp add: plainFieldName_def syntaxChar_def)
  have d1: "spanDirective ''timestamp'' (''span('' @ [] @ ''timestamp'' @ [] @ '','' @ ''1d'' @ '')'')"
    unfolding spanDirective_def
    by (intro exI [of _ "[]"] exI [of _ "''1d''"] conjI refl)
       (simp_all add: isLineTerminator_def)
  have d2: "spanDirective ''timestamp'' (''span('' @ [] @ ''timestamp'' @ [] @ '','' @ ''1h'' @ '')'')"
    unfolding spanDirective_def
    by (intro exI [of _ "[]"] exI [of _ "''1h''"] conjI refl)
       (simp_all add: isLineTerminator_def)
  have 3: "list_all (\<lambda>i. matches 73 (spanRegex (map lit ''timestamp'')) ([], drop i ?q) = [])
           [0..<27]"
    by code_simp
  have 4: "\<not> spanAt ''timestamp'' (drop i ?q)" if "i < 27" for i
    using 3 that unfolding spanAt_iff_matches [of _ _ 73 "[]"] list_all_iff by simp
  have fs: "firstSpan ''timestamp'' ?q ''source=a | stats avg(x) by '' ''span(timestamp,1d)''
      ('' | eval y = '' @ ''span(timestamp,1h)'' @ [])"
    using d1 4 by (simp add: firstSpan_def)
  show ?thesis
    using updateQuerySpanInterval_only_first [OF 1 fs, of exampleRegExp "''1M''"] d2 by simp
qed

text \<open>
  C6, as stated, fails: in the query below the leftmost span directive has a line feed
  in its interval, which the wildcard of the pattern does not pass, so the first match
  is the later directive. The leftmost directive is returned as it was and the later
  one is rewritten, where the claim has the leftmost one rewritten and the later one
  unchanged.
\<close>

theorem updateQuerySpanInterval_line_feed_counterexample:
  "updateQuerySpanInterval exampleRegExp
      (''source=a | stats avg(x) by span(timestamp,'' @ [CHR 0x0A]
         @ ''1d) | eval y = span(timestamp,1h)'')
      ''timestamp'' ''1M''
    = Inr (''source=a | stats avg(x) by span(timestamp,'' @ [CHR 0x0A]
         @ ''1d) | eval y = span(timestamp,1M)'')
   \<and> updateQuerySpanInterval exampleRegExp
      (''source=a | stats avg(x) by span(timestamp,'' @ [CHR 0x0A]
         @ ''1d) | eval y = span(timestamp,1h)'')
      ''timestamp'' ''1M''
    \<noteq> Inr ''source=a | stats avg(x) by span(timestamp,1M) | eval y = span(timestamp,1h)''"
  by code_simp

end
